(* ===== verification/Prelude.thy ===== *)
theory Prelude
  imports Main "HOL-Library.Word"
begin

text \<open>
  What every component of the development shares: the machine integers, the value a Rust call
  can end with, the sequencing of fallible calls (the \<open>?\<close> operator), and the slices of a buffer.

  A call of the program ends in one of four ways, the constructors of \<open>exec\<close>:
  \<^item> \<open>Ret x\<close>: it returns \<open>Ok(x)\<close> (or plainly \<open>x\<close>, where the source has no \<open>Result\<close>);
  \<^item> \<open>Throw e\<close>: it returns \<open>Err(e)\<close>;
  \<^item> \<open>Panic\<close>: it unwinds (\<open>assert!\<close>, \<open>unwrap\<close> on an error, an index out of range, an arithmetic
    overflow in a build with overflow checks, \<open>unimplemented!\<close>);
  \<^item> \<open>Hang\<close>: it does not return (a loop of the source that never ends).
\<close>

unbundle bit_operations_syntax

section \<open>Machine integers\<close>

type_synonym u8 = "8 word"
type_synonym u16 = "16 word"
type_synonym u32 = "32 word"

text \<open>
  \<open>usize\<close> and \<open>u64\<close> quantities are natural numbers; where the source computes with them in a way
  that can leave the range, the check against \<open>2 ^ 64\<close> is written out.
\<close>

type_synonym u64 = nat
type_synonym usize = nat

section \<open>How a call ends\<close>

datatype ('e, 'a) exec = Ret 'a | Throw 'e | Panic | Hang

primrec and_then :: "('e, 'a) exec \<Rightarrow> ('a \<Rightarrow> ('e, 'b) exec) \<Rightarrow> ('e, 'b) exec" where
  "and_then (Ret x) f = f x"
| "and_then (Throw e) f = Throw e"
| "and_then Panic f = Panic"
| "and_then Hang f = Hang"

primrec map_err :: "('e \<Rightarrow> ('f, 'a) exec) \<Rightarrow> ('e, 'a) exec \<Rightarrow> ('f, 'a) exec" where
  "map_err h (Ret x) = Ret x"
| "map_err h (Throw e) = h e"
| "map_err h Panic = Panic"
| "map_err h Hang = Hang"

text \<open>\<open>Option::ok_or\<close>, a \<open>Result\<close> as a sum, and \<open>unwrap\<close>.\<close>

definition of_sum :: "'e + 'a \<Rightarrow> ('e, 'a) exec" where
  "of_sum r = (case r of Inl e \<Rightarrow> Throw e | Inr x \<Rightarrow> Ret x)"

definition unwrap :: "'a option \<Rightarrow> ('e, 'a) exec" where
  "unwrap r = (case r of None \<Rightarrow> Panic | Some x \<Rightarrow> Ret x)"

definition assert :: "bool \<Rightarrow> ('e, unit) exec" where
  "assert b = (if b then Ret () else Panic)"

text \<open>The call returns (with \<open>Ok\<close> or \<open>Err\<close>): it neither unwinds nor runs for ever.\<close>

definition returns :: "('e, 'a) exec \<Rightarrow> bool" where
  "returns m \<longleftrightarrow> m \<noteq> Panic \<and> m \<noteq> Hang"

lemma and_then_eq_Ret [simp]:
  "and_then m f = Ret y \<longleftrightarrow> (\<exists>x. m = Ret x \<and> f x = Ret y)"
  by (cases m) auto

lemma and_then_eq_Throw:
  "and_then m f = Throw e \<longleftrightarrow> m = Throw e \<or> (\<exists>x. m = Ret x \<and> f x = Throw e)"
  by (cases m) auto

lemma and_then_eq_Panic:
  "and_then m f = Panic \<longleftrightarrow> m = Panic \<or> (\<exists>x. m = Ret x \<and> f x = Panic)"
  by (cases m) auto

lemma and_then_eq_Hang:
  "and_then m f = Hang \<longleftrightarrow> m = Hang \<or> (\<exists>x. m = Ret x \<and> f x = Hang)"
  by (cases m) auto

lemma and_then_assoc: "and_then (and_then m f) g = and_then m (\<lambda>x. and_then (f x) g)"
  by (cases m) auto

lemma and_then_Ret [simp]: "and_then m Ret = m"
  by (cases m) auto

lemma and_then_cong [fundef_cong]:
  "m = m' \<Longrightarrow> (\<And>x. m' = Ret x \<Longrightarrow> f x = g x) \<Longrightarrow> and_then m f = and_then m' g"
  by (cases m') auto

lemma map_err_eq_Ret:
  "map_err h m = Ret x \<longleftrightarrow> m = Ret x \<or> (\<exists>e. m = Throw e \<and> h e = Ret x)"
  by (cases m) auto

lemma of_sum_simps [simp]: "of_sum (Inl e) = Throw e" "of_sum (Inr x) = Ret x"
  by (simp_all add: of_sum_def)

lemma unwrap_simps [simp]: "unwrap None = Panic" "unwrap (Some x) = Ret x"
  by (simp_all add: unwrap_def)

lemma assert_simps [simp]: "assert True = Ret ()" "assert False = Panic"
  by (simp_all add: assert_def)

lemma assert_eq_Ret [simp]: "assert b = Ret u \<longleftrightarrow> b"
  by (cases b) auto

lemma assert_neq [simp]: "assert b \<noteq> Throw e" "assert b \<noteq> Hang"
  by (cases b; simp)+

lemma returns_simps [simp]:
  "returns (Ret x)" "returns (Throw e)" "\<not> returns Panic" "\<not> returns Hang"
  by (simp_all add: returns_def)

lemma returns_and_then:
  "returns (and_then m f) \<longleftrightarrow> returns m \<and> (\<forall>x. m = Ret x \<longrightarrow> returns (f x))"
  by (cases m) auto

lemma returns_cases:
  assumes "returns m"
  obtains x where "m = Ret x" | e where "m = Throw e"
  using assms by (cases m) auto

section \<open>Slices\<close>

text \<open>\<open>&xs[a..b]\<close>: unwinds unless \<open>a \<le> b \<le> xs.len()\<close>.\<close>

definition slice_of :: "nat \<Rightarrow> nat \<Rightarrow> 'a list \<Rightarrow> ('e, 'a list) exec" where
  "slice_of a b xs = (if a \<le> b \<and> b \<le> length xs then Ret (drop a (take b xs)) else Panic)"

text \<open>\<open>xs[i]\<close>: unwinds when \<open>i\<close> is out of range.\<close>

definition index_of :: "'a list \<Rightarrow> nat \<Rightarrow> ('e, 'a) exec" where
  "index_of xs i = (if i < length xs then Ret (xs ! i) else Panic)"

lemma slice_of_eq_Ret [simp]:
  "slice_of a b xs = Ret ys \<longleftrightarrow> a \<le> b \<and> b \<le> length xs \<and> ys = drop a (take b xs)"
  by (auto simp: slice_of_def)

lemma slice_of_neq [simp]: "slice_of a b xs \<noteq> Throw e" "slice_of a b xs \<noteq> Hang"
  by (simp_all add: slice_of_def)

lemma index_of_eq_Ret [simp]: "index_of xs i = Ret x \<longleftrightarrow> i < length xs \<and> x = xs ! i"
  by (auto simp: index_of_def)

section \<open>Lemmas on lists and arithmetic the components share\<close>

lemma length_slice: "b \<le> length xs \<Longrightarrow> length (drop a (take b xs)) = b - a"
  by simp

lemma take_drop_add: "take (m + n) (drop k xs) = take m (drop k xs) @ take n (drop (k + m) xs)"
  by (simp add: take_add add.commute)

lemma div_mult_lt:
  fixes s n :: nat
  assumes "0 < b" and "s < n"
  shows "s mod b < min (n - (s div b) * b) b"
proof -
  have "s mod b = s - (s div b) * b" by (simp add: minus_div_mult_eq_mod)
  moreover have "(s div b) * b \<le> s" by simp
  ultimately have "s mod b < n - (s div b) * b" using assms(2) by linarith
  then show ?thesis using assms(1) by simp
qed

lemma ceil_div_gt:
  fixes n k b :: nat
  assumes "0 < b"
  shows "k < (n + b - 1) div b \<longleftrightarrow> k * b < n"
proof -
  have "k < (n + b - 1) div b \<longleftrightarrow> Suc k \<le> (n + b - 1) div b" by auto
  also have "\<dots> \<longleftrightarrow> Suc k * b \<le> n + b - 1"
    using assms by (simp add: less_eq_div_iff_mult_less_eq)
  also have "\<dots> \<longleftrightarrow> k * b < n" using assms by auto
  finally show ?thesis .
qed

text \<open>Testing a flag with a mask is testing a bit.\<close>

lemma word_flag_bit:
  fixes w :: "'a :: len word"
  assumes "n < LENGTH('a)"
  shows "w AND push_bit n 1 = push_bit n 1 \<longleftrightarrow> bit w n"
proof
  assume "w AND push_bit n 1 = push_bit n 1"
  then have "bit (w AND push_bit n 1) n = bit (push_bit n 1 :: 'a word) n" by simp
  with assms show "bit w n" by (simp add: bit_simps)
next
  show "w AND push_bit n 1 = push_bit n 1" if "bit w n" by (rule bit_word_eqI) (use that in \<open>auto simp: bit_simps\<close>)
qed

end
