(* ===== verification/Rust_Str.thy ===== *)
theory Rust_Str
  imports Prelude
begin

text \<open>
  The parts of Rust's \<open>str\<close>, integer parsing and \<open>Path\<close> the program calls.
  A \<open>String\<close> is the list of its Unicode scalar values (\<open>ustr\<close>); \<open>from_utf8\<close> and \<open>as_bytes\<close>
  translate from and to its bytes. Paths are the strings they hold (Unix separators).
\<close>

type_synonym uchar = nat
type_synonym ustr = "uchar list"

definition lit :: "string \<Rightarrow> ustr" where
  "lit s = map of_char s"

section \<open>UTF-8\<close>

definition is_scalar :: "uchar \<Rightarrow> bool" where
  "is_scalar c \<longleftrightarrow> c < 0xD800 \<or> 0xE000 \<le> c \<and> c < 0x110000"

definition utf8_cont :: "nat \<Rightarrow> bool" where
  "utf8_cont b \<longleftrightarrow> 0x80 \<le> b \<and> b < 0xC0"

text \<open>The admissible second byte of a three and of a four byte sequence (no overlong forms, no
  surrogates, nothing above \<open>0x10FFFF\<close>).\<close>

definition utf8_second3 :: "nat \<Rightarrow> nat \<Rightarrow> bool" where
  "utf8_second3 a b \<longleftrightarrow> utf8_cont b \<and> (a = 0xE0 \<longrightarrow> 0xA0 \<le> b) \<and> (a = 0xED \<longrightarrow> b < 0xA0)"

definition utf8_second4 :: "nat \<Rightarrow> nat \<Rightarrow> bool" where
  "utf8_second4 a b \<longleftrightarrow> utf8_cont b \<and> (a = 0xF0 \<longrightarrow> 0x90 \<le> b) \<and> (a = 0xF4 \<longrightarrow> b < 0x90)"

fun utf8_decode :: "nat list \<Rightarrow> ustr option" where
  "utf8_decode [] = Some []"
| "utf8_decode (a # bs) =
    (if a < 0x80 then map_option (Cons a) (utf8_decode bs)
     else if 0xC2 \<le> a \<and> a < 0xE0 then
       (case bs of b # cs \<Rightarrow>
          if utf8_cont b
          then map_option (Cons ((a - 0xC0) * 64 + (b - 0x80))) (utf8_decode cs) else None
        | _ \<Rightarrow> None)
     else if 0xE0 \<le> a \<and> a < 0xF0 then
       (case bs of b # c # ds \<Rightarrow>
          if utf8_second3 a b \<and> utf8_cont c
          then map_option (Cons ((a - 0xE0) * 4096 + (b - 0x80) * 64 + (c - 0x80))) (utf8_decode ds)
          else None
        | _ \<Rightarrow> None)
     else if 0xF0 \<le> a \<and> a < 0xF5 then
       (case bs of b # c # d # es \<Rightarrow>
          if utf8_second4 a b \<and> utf8_cont c \<and> utf8_cont d
          then map_option (Cons ((a - 0xF0) * 262144 + (b - 0x80) * 4096 + (c - 0x80) * 64
                 + (d - 0x80))) (utf8_decode es)
          else None
        | _ \<Rightarrow> None)
     else None)"

definition from_utf8 :: "u8 list \<Rightarrow> ustr option" where
  "from_utf8 bs = utf8_decode (map unat bs)"

definition utf8_encode :: "uchar \<Rightarrow> nat list" where
  "utf8_encode c =
    (if c < 0x80 then [c]
     else if c < 0x800 then [0xC0 + c div 64, 0x80 + c mod 64]
     else if c < 0x10000 then [0xE0 + c div 4096, 0x80 + (c div 64) mod 64, 0x80 + c mod 64]
     else [0xF0 + c div 262144, 0x80 + (c div 4096) mod 64, 0x80 + (c div 64) mod 64,
           0x80 + c mod 64])"

definition as_bytes :: "ustr \<Rightarrow> u8 list" where
  "as_bytes s = map of_nat (concat (map utf8_encode s))"

lemma base64_digits3: "c div 4096 * 4096 + (c div 64) mod 64 * 64 + c mod 64 = (c :: nat)"
proof -
  have "c div 4096 = c div 64 div 64" by (simp add: div_mult2_eq [symmetric])
  then have "c div 4096 * 64 + (c div 64) mod 64 = c div 64" by simp
  moreover have "c = c div 64 * 64 + c mod 64" by simp
  ultimately show ?thesis by linarith
qed

lemma base64_digits4:
  "c div 262144 * 262144 + (c div 4096) mod 64 * 4096 + (c div 64) mod 64 * 64 + c mod 64
    = (c :: nat)"
proof -
  have "c div 262144 = c div 4096 div 64" by (simp add: div_mult2_eq [symmetric])
  then have "c div 262144 * 64 + (c div 4096) mod 64 = c div 4096" by simp
  then show ?thesis using base64_digits3 [of c] by linarith
qed

lemma utf8_decode_encode:
  assumes "is_scalar c"
  shows "utf8_decode (utf8_encode c @ bs) = map_option (Cons c) (utf8_decode bs)"
proof -
  consider "c < 0x80" | "0x80 \<le> c" "c < 0x800" | "0x800 \<le> c" "c < 0x10000"
    | "0x10000 \<le> c" by linarith
  then show ?thesis
  proof cases
    case 1
    then show ?thesis by (simp add: utf8_encode_def)
  next
    case 2
    then have "2 \<le> c div 64" "c div 64 < 32" by auto
    moreover have "c div 64 * 64 + c mod 64 = c" by simp
    ultimately show ?thesis using 2 by (auto simp: utf8_encode_def utf8_cont_def)
  next
    case 3
    let ?x = "c div 4096" and ?y = "(c div 64) mod 64" and ?z = "c mod 64"
    note d = base64_digits3 [of c]
    have "?y < 64" "?z < 64" by simp_all
    with d 3 have "?x < 16" "?x = 0 \<longrightarrow> 0x20 \<le> ?y" by linarith+
    moreover have "?x = 13 \<longrightarrow> ?y < 0x20"
      using assms 3 d \<open>?z < 64\<close> unfolding is_scalar_def by linarith
    ultimately show ?thesis
      using 3 d by (simp add: utf8_encode_def utf8_cont_def utf8_second3_def)
  next
    case 4
    let ?w = "c div 262144" and ?x = "(c div 4096) mod 64" and ?y = "(c div 64) mod 64"
      and ?z = "c mod 64"
    note d = base64_digits4 [of c]
    have "?x < 64" "?y < 64" "?z < 64" by simp_all
    with d 4 have "?w = 0 \<longrightarrow> 0x10 \<le> ?x" by linarith
    moreover have "?w < 5" "?w = 4 \<longrightarrow> ?x < 0x10"
      using assms 4 d \<open>?x < 64\<close> \<open>?y < 64\<close> \<open>?z < 64\<close> unfolding is_scalar_def by linarith+
    ultimately show ?thesis
      using 4 d by (simp add: utf8_encode_def utf8_cont_def utf8_second4_def)
  qed
qed

lemma utf8_encode_bound: "is_scalar c \<Longrightarrow> \<forall>b \<in> set (utf8_encode c). b < 256"
  by (auto simp: utf8_encode_def is_scalar_def)

lemma utf8_decode_concat:
  "list_all is_scalar s \<Longrightarrow> utf8_decode (concat (map utf8_encode s)) = Some s"
  by (induction s) (simp_all add: utf8_decode_encode)

lemma from_utf8_as_bytes:
  assumes "list_all is_scalar s"
  shows "from_utf8 (as_bytes s) = Some s"
proof -
  have "\<forall>b \<in> set (concat (map utf8_encode s)). b < 256"
    using assms utf8_encode_bound by (auto simp: list_all_iff)
  then have "map (unat \<circ> (of_nat :: nat \<Rightarrow> u8)) (concat (map utf8_encode s))
      = concat (map utf8_encode s)"
    by (intro map_idI) (auto simp: unat_of_nat)
  then show ?thesis
    using assms by (simp add: from_utf8_def as_bytes_def utf8_decode_concat)
qed

lemma utf8_decode_ascii:
  "list_all (\<lambda>b. b < 0x80) bs \<Longrightarrow> utf8_decode bs = Some bs"
  by (induction bs) auto

lemma from_utf8_ascii:
  "list_all (\<lambda>b. unat b < 0x80) bs \<Longrightarrow> from_utf8 bs = Some (map unat bs)"
  unfolding from_utf8_def by (rule utf8_decode_ascii) (simp add: list.pred_map comp_def)

lemma as_bytes_ascii: "list_all (\<lambda>c. c < 0x80) s \<Longrightarrow> as_bytes s = map of_nat s"
  by (induction s) (simp_all add: as_bytes_def utf8_encode_def)

lemma from_utf8_ascii_bytes: "list_all (\<lambda>c. c < 0x80) s \<Longrightarrow> from_utf8 (as_bytes s) = Some s"
  by (rule from_utf8_as_bytes) (auto simp: list_all_iff is_scalar_def)

section \<open>Trimming, searching, splitting, comparing\<close>

definition is_whitespace :: "uchar \<Rightarrow> bool" where
  "is_whitespace c \<longleftrightarrow> 9 \<le> c \<and> c \<le> 13 \<or> c = 0x20 \<or> c = 0x85 \<or> c = 0xA0 \<or> c = 0x1680
     \<or> 0x2000 \<le> c \<and> c \<le> 0x200A \<or> c = 0x2028 \<or> c = 0x2029 \<or> c = 0x202F \<or> c = 0x205F
     \<or> c = 0x3000"

definition trim_end :: "ustr \<Rightarrow> ustr" where
  "trim_end s = rev (dropWhile is_whitespace (rev s))"

definition trim_matches :: "uchar \<Rightarrow> ustr \<Rightarrow> ustr" where
  "trim_matches c s = rev (dropWhile (\<lambda>x. x = c) (rev (dropWhile (\<lambda>x. x = c) s)))"

fun rfind :: "uchar \<Rightarrow> ustr \<Rightarrow> nat option" where
  "rfind c [] = None"
| "rfind c (x # xs) =
    (case rfind c xs of Some i \<Rightarrow> Some (Suc i) | None \<Rightarrow> if x = c then Some 0 else None)"

definition ends_with :: "uchar \<Rightarrow> ustr \<Rightarrow> bool" where
  "ends_with c s \<longleftrightarrow> s \<noteq> [] \<and> last s = c"

definition to_ascii_lowercase :: "uchar \<Rightarrow> uchar" where
  "to_ascii_lowercase c = (if 65 \<le> c \<and> c \<le> 90 then c + 32 else c)"

definition eq_ignore_ascii_case :: "ustr \<Rightarrow> ustr \<Rightarrow> bool" where
  "eq_ignore_ascii_case a b \<longleftrightarrow> map to_ascii_lowercase a = map to_ascii_lowercase b"

fun split_on :: "uchar \<Rightarrow> ustr \<Rightarrow> ustr list" where
  "split_on c [] = [[]]"
| "split_on c (x # xs) =
    (if x = c then [] # split_on c xs
     else case split_on c xs of [] \<Rightarrow> [[x]] | s # ss \<Rightarrow> (x # s) # ss)"

lemma trim_end_append_ws:
  "list_all is_whitespace ws \<Longrightarrow> trim_end (s @ ws) = trim_end s"
  unfolding trim_end_def
  by (induction ws rule: rev_induct) (auto simp: list_all_iff)

lemma trim_end_last: "s = [] \<or> \<not> is_whitespace (last s) \<Longrightarrow> trim_end s = s"
  unfolding trim_end_def by (cases s rule: rev_cases) auto

lemma rfind_None [simp]: "rfind c s = None \<longleftrightarrow> c \<notin> set s"
  by (induction s) (auto split: option.splits)

lemma rfind_append:
  "c \<notin> set v \<Longrightarrow> rfind c (s @ c # v) = Some (length s)"
proof (induction s)
  case Nil
  then have "rfind c v = None" by simp
  then show ?case by (simp del: rfind_None)
qed simp

lemma split_on_neq_Nil [simp]: "split_on c s \<noteq> []"
  by (cases s) (auto split: list.splits)

lemma split_on_append:
  "split_on c (s @ c # t) = split_on c s @ split_on c t"
proof (induction s)
  case (Cons x s)
  then show ?case by (cases "split_on c s") simp_all
qed simp

lemma split_on_no_sep: "c \<notin> set s \<Longrightarrow> split_on c s = [s]"
  by (induction s) auto

lemma eq_ignore_ascii_case_refl [simp]: "eq_ignore_ascii_case s s"
  by (simp add: eq_ignore_ascii_case_def)

section \<open>Integer parsing\<close>

datatype int_error = Empty | InvalidDigit | PosOverflow | NegOverflow

text \<open>The digit loop of \<open>from_str_radix(_, 10)\<close>, accumulating the magnitude: a character that is
  not a digit is reported before the overflow of the multiplication at the same place.\<close>

fun parse_digits :: "int_error \<Rightarrow> nat \<Rightarrow> nat \<Rightarrow> ustr \<Rightarrow> int_error + nat" where
  "parse_digits ovf bound acc [] = Inr acc"
| "parse_digits ovf bound acc (c # cs) =
    (if c < 48 \<or> 57 < c then Inl InvalidDigit
     else if bound < acc * 10 + (c - 48) then Inl ovf
     else parse_digits ovf bound (acc * 10 + (c - 48)) cs)"

definition parse_u16 :: "ustr \<Rightarrow> int_error + u16" where
  "parse_u16 s =
    (case s of [] \<Rightarrow> Inl Empty
     | c # cs \<Rightarrow>
        if (c = 43 \<or> c = 45) \<and> cs = [] then Inl InvalidDigit
        else map_sum id of_nat (parse_digits PosOverflow 65535 0 (if c = 43 then cs else s)))"

definition parse_i32 :: "ustr \<Rightarrow> int_error + int" where
  "parse_i32 s =
    (case s of [] \<Rightarrow> Inl Empty
     | c # cs \<Rightarrow>
        if (c = 43 \<or> c = 45) \<and> cs = [] then Inl InvalidDigit
        else if c = 45 then map_sum id (\<lambda>n. - int n) (parse_digits NegOverflow 2147483648 0 cs)
        else map_sum id int (parse_digits PosOverflow 2147483647 0 (if c = 43 then cs else s)))"

text \<open>The decimal notation of a number, to state round trips with.\<close>

fun decimal :: "nat \<Rightarrow> ustr" where
  "decimal n = (if n < 10 then [48 + n] else decimal (n div 10) @ [48 + n mod 10])"

declare decimal.simps [simp del]

lemma parse_digits_append:
  "parse_digits ovf bound acc (s @ t) =
    (case parse_digits ovf bound acc s of Inl e \<Rightarrow> Inl e | Inr a \<Rightarrow> parse_digits ovf bound a t)"
  by (induction s arbitrary: acc) auto

lemma parse_digits_decimal:
  "n \<le> bound \<Longrightarrow> parse_digits ovf bound 0 (decimal n) = Inr n"
proof (induction n rule: decimal.induct)
  case (1 n)
  show ?case
  proof (cases "n < 10")
    case True
    with 1 show ?thesis by (subst decimal.simps) simp
  next
    case False
    have "n div 10 \<le> bound" using "1.prems" by linarith
    with False 1 have IH: "parse_digits ovf bound 0 (decimal (n div 10)) = Inr (n div 10)" by simp
    have eq: "n div 10 * 10 + n mod 10 = n" by simp
    show ?thesis
      using False "1.prems" by (subst decimal.simps) (simp add: parse_digits_append IH eq)
  qed
qed

lemma decimal_neq_Nil [simp]: "decimal n \<noteq> []"
  by (subst decimal.simps) simp

lemma decimal_digits: "c \<in> set (decimal n) \<Longrightarrow> 48 \<le> c \<and> c \<le> 57"
proof (induction n rule: decimal.induct)
  case (1 n)
  show ?case
  proof (cases "n < 10")
    case True
    with "1.prems" show ?thesis by (subst (asm) decimal.simps) simp
  next
    case False
    with "1.prems" consider "c \<in> set (decimal (n div 10))" | "c = 48 + n mod 10"
      by (subst (asm) decimal.simps) auto
    then show ?thesis
    proof cases
      case 1
      with False "1.IH" show ?thesis by blast
    next
      case 2
      have "n mod 10 < 10" by simp
      with 2 show ?thesis by linarith
    qed
  qed
qed

lemma parse_u16_decimal:
  assumes "n \<le> 65535"
  shows "parse_u16 (decimal n) = Inr (of_nat n)"
proof (cases "decimal n")
  case (Cons c cs)
  then have "c \<in> set (decimal n)" by simp
  then have "48 \<le> c \<and> c \<le> 57" by (rule decimal_digits)
  with Cons show ?thesis
    using parse_digits_decimal [OF assms, of PosOverflow] by (simp add: parse_u16_def)
qed simp

section \<open>Paths\<close>

definition is_absolute :: "ustr \<Rightarrow> bool" where
  "is_absolute p \<longleftrightarrow> p \<noteq> [] \<and> hd p = 47"

definition path_join :: "ustr \<Rightarrow> ustr \<Rightarrow> ustr" where
  "path_join p q =
    (if is_absolute q then q
     else if p \<noteq> [] \<and> last p \<noteq> 47 then p @ 47 # q
     else p @ q)"

lemma path_join_Nil [simp]: "path_join [] q = q"
  by (simp add: path_join_def)

end
