(* ===== verification/Crates.thy ===== *)
theory Crates
  imports Rust_Str
begin

text \<open>
  A build of the program: the Cargo features and the profile it is compiled with, and the crates it
  is linked against. The crates (\<open>nom\<close>, \<open>bitflags\<close>, \<open>time\<close>, \<open>encoding_rs\<close>, \<open>itertools\<close>) are not part
  of the repository, so the functions the source calls are fields of the record \<open>build\<close>, which every
  definition that calls them takes as an argument. A generic function of a crate is one field per
  type the source uses it at. The locale \<open>linked\<close> states what their documentation promises; the
  interpretation \<open>std\<close> at the end shows that the promises can be kept together.

  The combinators \<open>map\<close>, \<open>value\<close>, \<open>map_res\<close>, \<open>map_parser\<close> and \<open>tuple\<close> of \<open>nom\<close> only sequence the
  parsers they are given; each use is written as that sequence.
\<close>

section \<open>The types the crates exchange with the program\<close>

text \<open>\<open>nom::error::ErrorKind\<close>, as far as the parsers used here report it, and \<open>nom::Err\<close>.\<close>

datatype ErrorKind = Tag | MapRes | Alt | Many1 | Eof | Fail

datatype nom_err = NomError ErrorKind | NomFailure ErrorKind | NomIncomplete

text \<open>\<open>NomRes\<close>: the rest of the input and the value, or an error.\<close>

type_synonym 'a nom_res = "(nom_err, u8 list \<times> 'a) exec"
type_synonym 'a parser = "u8 list \<Rightarrow> 'a nom_res"

text \<open>The values of the \<open>time\<close> crate: a month by its number, a date, a time of day, a UTC offset in
  seconds, and the \<open>OffsetDateTime\<close> made of them.\<close>

type_synonym Month = nat

record Date =
  date_year :: int
  date_month :: Month
  date_day :: nat

record Time =
  time_hour :: nat
  time_minute :: nat
  time_second :: nat
  time_milli :: nat

type_synonym UtcOffset = int

record OffsetDateTime =
  odt_date :: Date
  odt_time :: Time
  odt_offset :: UtcOffset

section \<open>The build\<close>

record build =
  assertions :: bool
  big_endian :: bool
  overflow_checks :: bool
  nom_take :: "usize \<Rightarrow> u8 list parser"
  nom_tag :: "u8 list \<Rightarrow> u8 list parser"
  nom_rest :: "u8 list parser"
  nom_le_u8 :: "u8 parser"
  nom_le_u16 :: "u16 parser"
  nom_be_u16 :: "u16 parser"
  nom_le_u32 :: "u32 parser"
  nom_be_u32 :: "u32 parser"
  nom_length_data :: "u8 parser \<Rightarrow> u8 list parser"
  nom_count :: "u8 list parser \<Rightarrow> usize \<Rightarrow> u8 list list parser"
  nom_alt_i32 :: "int parser list \<Rightarrow> int parser"
  nom_alt_bool :: "bool parser list \<Rightarrow> bool parser"
  nom_alt_str :: "ustr parser list \<Rightarrow> ustr parser"
  nom_opt_u32 :: "u32 parser \<Rightarrow> u32 option parser"
  nom_many1_time :: "OffsetDateTime parser \<Rightarrow> OffsetDateTime list parser"
  bits8_from_bits_truncate :: "u8 \<Rightarrow> u8 \<Rightarrow> u8"
  bits8_contains :: "u8 \<Rightarrow> u8 \<Rightarrow> bool"
  bits8_union :: "u8 \<Rightarrow> u8 \<Rightarrow> u8"
  bits32_from_bits_truncate :: "u32 \<Rightarrow> u32 \<Rightarrow> u32"
  bits32_contains :: "u32 \<Rightarrow> u32 \<Rightarrow> bool"
  bits32_intersection :: "u32 \<Rightarrow> u32 \<Rightarrow> u32"
  month_try_from :: "u8 \<Rightarrow> Month option"
  from_calendar_date :: "int \<Rightarrow> Month \<Rightarrow> u8 \<Rightarrow> Date option"
  from_hms :: "u8 \<Rightarrow> u8 \<Rightarrow> u8 \<Rightarrow> Time option"
  from_hms_milli :: "u8 \<Rightarrow> u8 \<Rightarrow> u8 \<Rightarrow> u16 \<Rightarrow> Time option"
  from_whole_seconds :: "int \<Rightarrow> UtcOffset option"
  assume_offset :: "Date \<Rightarrow> Time \<Rightarrow> UtcOffset \<Rightarrow> OffsetDateTime"
  utf16be_decode :: "u8 list \<Rightarrow> ustr \<times> bool"

text \<open>Arithmetic that can leave its range: a panic with overflow checks, else it wraps.\<close>

definition usize_sub :: "'z build_scheme \<Rightarrow> usize \<Rightarrow> usize \<Rightarrow> ('e, usize) exec" where
  "usize_sub B a b =
    (if b \<le> a then Ret (a - b)
     else if overflow_checks B then Panic else Ret (2 ^ 64 + a - b))"

definition u64_mul :: "'z build_scheme \<Rightarrow> u64 \<Rightarrow> u64 \<Rightarrow> ('e, u64) exec" where
  "u64_mul B a b =
    (if a * b < 2 ^ 64 then Ret (a * b)
     else if overflow_checks B then Panic else Ret (a * b mod 2 ^ 64))"

definition word_add :: "'z build_scheme \<Rightarrow> 'w::len word \<Rightarrow> 'w word \<Rightarrow> ('e, 'w word) exec" where
  "word_add B a b =
    (if overflow_checks B \<and> 2 ^ LENGTH('w) \<le> unat a + unat b then Panic else Ret (a + b))"

definition word_sub :: "'z build_scheme \<Rightarrow> 'w::len word \<Rightarrow> 'w word \<Rightarrow> ('e, 'w word) exec" where
  "word_sub B a b = (if overflow_checks B \<and> unat a < unat b then Panic else Ret (a - b))"

definition word_mul :: "'z build_scheme \<Rightarrow> 'w::len word \<Rightarrow> 'w word \<Rightarrow> ('e, 'w word) exec" where
  "word_mul B a b =
    (if overflow_checks B \<and> 2 ^ LENGTH('w) \<le> unat a * unat b then Panic else Ret (a * b))"

text \<open>Signed addition in \<open>i64\<close>.\<close>

definition wrap_i64 :: "int \<Rightarrow> int" where
  "wrap_i64 x = (x + 2 ^ 63) mod 2 ^ 64 - 2 ^ 63"

definition i64_add :: "'z build_scheme \<Rightarrow> int \<Rightarrow> int \<Rightarrow> ('e, int) exec" where
  "i64_add B a b =
    (if overflow_checks B \<and> wrap_i64 (a + b) \<noteq> a + b then Panic else Ret (wrap_i64 (a + b)))"

text \<open>\<open>assert!\<close> under \<open>cfg(feature = "assertions")\<close>.\<close>

definition assertion :: "'z build_scheme \<Rightarrow> bool \<Rightarrow> ('e, unit) exec" where
  "assertion B b = (if assertions B then assert b else Ret ())"

lemma assertion_True [simp]: "assertion B True = Ret ()"
  by (simp add: assertion_def)

lemma assertion_eq_Ret [simp]: "assertion B b = Ret u \<longleftrightarrow> (assertions B \<longrightarrow> b)"
  by (auto simp: assertion_def)

lemma assertion_neq [simp]: "assertion B b \<noteq> Throw e" "assertion B b \<noteq> Hang"
  by (simp_all add: assertion_def)

lemma usize_sub_le [simp]: "b \<le> a \<Longrightarrow> usize_sub B a b = Ret (a - b)"
  by (simp add: usize_sub_def)

lemma usize_sub_neq [simp]: "usize_sub B a b \<noteq> Throw e" "usize_sub B a b \<noteq> Hang"
  by (simp_all add: usize_sub_def)

lemma wrap_i64_id: "- (2 ^ 63) \<le> x \<Longrightarrow> x < 2 ^ 63 \<Longrightarrow> wrap_i64 x = x"
  by (simp add: wrap_i64_def)

section \<open>The documented behaviour\<close>

definition take_spec :: "usize \<Rightarrow> u8 list parser" where
  "take_spec n i = (if n \<le> length i then Ret (drop n i, take n i) else Throw (NomError Eof))"

definition tag_spec :: "u8 list \<Rightarrow> u8 list parser" where
  "tag_spec t i =
    (if take (length t) i = t then Ret (drop (length t) i, t) else Throw (NomError Tag))"

definition rest_spec :: "u8 list parser" where
  "rest_spec i = Ret ([], i)"

definition le_u8_spec :: "u8 parser" where
  "le_u8_spec i = (case i of [] \<Rightarrow> Throw (NomError Eof) | b # r \<Rightarrow> Ret (r, b))"

fun le_nat :: "u8 list \<Rightarrow> nat" where
  "le_nat [] = 0"
| "le_nat (b # bs) = unat b + 256 * le_nat bs"

definition le_spec :: "nat \<Rightarrow> 'w::len word parser" where
  "le_spec n i = and_then (take_spec n i) (\<lambda>(r, bs). Ret (r, of_nat (le_nat bs)))"

definition be_spec :: "nat \<Rightarrow> 'w::len word parser" where
  "be_spec n i = and_then (take_spec n i) (\<lambda>(r, bs). Ret (r, of_nat (le_nat (rev bs))))"

text \<open>\<open>length_data\<close> reports data that is too short as \<open>Incomplete\<close>, unlike the \<open>complete\<close> parsers.\<close>

definition length_data_spec :: "u8 parser \<Rightarrow> u8 list parser" where
  "length_data_spec p i =
    and_then (p i) (\<lambda>(i, n).
    if unat n \<le> length i then Ret (drop (unat n) i, take (unat n) i) else Throw NomIncomplete)"

fun count_spec :: "'a parser \<Rightarrow> nat \<Rightarrow> 'a list parser" where
  "count_spec p 0 i = Ret (i, [])"
| "count_spec p (Suc n) i =
    and_then (p i) (\<lambda>(i, x). and_then (count_spec p n i) (\<lambda>(i, xs). Ret (i, x # xs)))"

fun alt_spec :: "'a parser list \<Rightarrow> 'a parser" where
  "alt_spec [] i = Throw (NomError Alt)"
| "alt_spec [p] i = p i"
| "alt_spec (p # ps) i = (case p i of Throw (NomError e) \<Rightarrow> alt_spec ps i | r \<Rightarrow> r)"

definition opt_spec :: "'a parser \<Rightarrow> 'a option parser" where
  "opt_spec p i =
    (case p i of
       Ret (r, x) \<Rightarrow> Ret (r, Some x)
     | Throw e \<Rightarrow> (case e of NomError k \<Rightarrow> Ret (i, None) | _ \<Rightarrow> Throw e)
     | Panic \<Rightarrow> Panic
     | Hang \<Rightarrow> Hang)"

text \<open>The repetition of \<open>many1\<close> stops at the first error of the element and fails when an element
  consumes nothing.\<close>

function more_spec :: "'a parser \<Rightarrow> 'a list parser" where
  "more_spec p i =
    (case p i of
       Ret (r, x) \<Rightarrow>
         if length r < length i
         then and_then (more_spec p r) (\<lambda>(r, xs). Ret (r, x # xs))
         else Throw (NomError Many1)
     | Throw e \<Rightarrow> (case e of NomError k \<Rightarrow> Ret (i, []) | _ \<Rightarrow> Throw e)
     | Panic \<Rightarrow> Panic
     | Hang \<Rightarrow> Hang)"
  by pat_completeness auto
termination
  by (relation "measure (\<lambda>(p, i). length i)") auto

declare more_spec.simps [simp del]

definition many1_spec :: "'a parser \<Rightarrow> 'a list parser" where
  "many1_spec p i =
    and_then (p i) (\<lambda>(r, x). and_then (more_spec p r) (\<lambda>(r, xs). Ret (r, x # xs)))"

fun take_while_inclusive_spec :: "('a \<Rightarrow> bool) \<Rightarrow> 'a list \<Rightarrow> 'a list" where
  "take_while_inclusive_spec f [] = []"
| "take_while_inclusive_spec f (x # xs) =
    x # (if f x then take_while_inclusive_spec f xs else [])"

definition leap_year :: "int \<Rightarrow> bool" where
  "leap_year y \<longleftrightarrow> 4 dvd y \<and> (\<not> 100 dvd y \<or> 400 dvd y)"

definition days_in_month :: "int \<Rightarrow> Month \<Rightarrow> nat" where
  "days_in_month y m =
    (if m = 2 then (if leap_year y then 29 else 28) else if m \<in> {4, 6, 9, 11} then 30 else 31)"

definition calendar_spec :: "int \<Rightarrow> Month \<Rightarrow> u8 \<Rightarrow> Date option" where
  "calendar_spec y m d =
    (if \<bar>y\<bar> \<le> 9999 \<and> 1 \<le> unat d \<and> unat d \<le> days_in_month y m
     then Some \<lparr>date_year = y, date_month = m, date_day = unat d\<rparr> else None)"

definition hms_spec :: "u8 \<Rightarrow> u8 \<Rightarrow> u8 \<Rightarrow> u16 \<Rightarrow> Time option" where
  "hms_spec h m s ms =
    (if unat h < 24 \<and> unat m < 60 \<and> unat s < 60 \<and> unat ms < 1000
     then Some \<lparr>time_hour = unat h, time_minute = unat m, time_second = unat s,
                time_milli = unat ms\<rparr>
     else None)"

text \<open>A character of two bytes in big endian order, as UCS-2 has it: a character of the Basic Multilingual
  Plane that is not a surrogate. \<open>UTF_16BE.decode\<close> of \<open>encoding_rs\<close> looks for a byte order mark
  first, so what it promises is for strings that do not start with the bytes of one.\<close>

definition ucs2_bytes :: "ustr \<Rightarrow> u8 list" where
  "ucs2_bytes s = concat (map (\<lambda>c. [of_nat (c div 256), of_nat (c mod 256)]) s)"

definition ucs2_char :: "uchar \<Rightarrow> bool" where
  "ucs2_char c \<longleftrightarrow> is_scalar c \<and> c < 0x10000"

definition has_bom :: "u8 list \<Rightarrow> bool" where
  "has_bom bs \<longleftrightarrow> take 2 bs \<in> {[0xFE, 0xFF], [0xFF, 0xFE]} \<or> take 3 bs = [0xEF, 0xBB, 0xBF]"

definition utf16_spec :: "(u8 list \<Rightarrow> ustr \<times> bool) \<Rightarrow> bool" where
  "utf16_spec f \<longleftrightarrow>
    (\<forall>s. list_all ucs2_char s \<longrightarrow> \<not> has_bom (ucs2_bytes s) \<longrightarrow> f (ucs2_bytes s) = (s, False))"

text \<open>The largest UTC offset a \<open>time\<close> release accepts is 23:59:59 or 25:59:59; nothing here depends
  on which.\<close>

definition offset_spec :: "(int \<Rightarrow> UtcOffset option) \<Rightarrow> bool" where
  "offset_spec f \<longleftrightarrow>
    (\<exists>bound. 86399 \<le> bound \<and> bound \<le> 93599 \<and>
       f = (\<lambda>s. if \<bar>s\<bar> \<le> bound then Some s else None))"

locale linked =
  fixes B :: "'z build_scheme"
  assumes take [simp]: "nom_take B = take_spec"
    and tag [simp]: "nom_tag B = tag_spec"
    and rest [simp]: "nom_rest B = rest_spec"
    and le_u8 [simp]: "nom_le_u8 B = le_u8_spec"
    and le_u16 [simp]: "nom_le_u16 B = le_spec 2"
    and be_u16 [simp]: "nom_be_u16 B = be_spec 2"
    and le_u32 [simp]: "nom_le_u32 B = le_spec 4"
    and be_u32 [simp]: "nom_be_u32 B = be_spec 4"
    and length_data [simp]: "nom_length_data B = length_data_spec"
    and count [simp]: "nom_count B = count_spec"
    and alt_i32 [simp]: "nom_alt_i32 B = alt_spec"
    and alt_bool [simp]: "nom_alt_bool B = alt_spec"
    and alt_str [simp]: "nom_alt_str B = alt_spec"
    and opt_u32 [simp]: "nom_opt_u32 B = opt_spec"
    and many1_time [simp]: "nom_many1_time B = many1_spec"
    and truncate8 [simp]: "bits8_from_bits_truncate B all x = x AND all"
    and contains8 [simp]: "bits8_contains B x f \<longleftrightarrow> x AND f = f"
    and union8 [simp]: "bits8_union B x f = x OR f"
    and truncate32 [simp]: "bits32_from_bits_truncate B all' y = y AND all'"
    and contains32 [simp]: "bits32_contains B y f' \<longleftrightarrow> y AND f' = f'"
    and intersection32 [simp]: "bits32_intersection B y f' = y AND f'"
    and month_try_from [simp]:
      "month_try_from B x = (if 1 \<le> unat x \<and> unat x \<le> 12 then Some (unat x) else None)"
    and from_calendar_date [simp]: "from_calendar_date B = calendar_spec"
    and from_hms [simp]: "from_hms B h m s = hms_spec h m s 0"
    and from_hms_milli [simp]: "from_hms_milli B = hms_spec"
    and from_whole_seconds: "offset_spec (from_whole_seconds B)"
    and assume_offset [simp]:
      "assume_offset B d t z = \<lparr>odt_date = d, odt_time = t, odt_offset = z\<rparr>"
    and utf16be_decode: "utf16_spec (utf16be_decode B)"

section \<open>A build whose crates keep their promises\<close>

text \<open>The UTF-16BE decoder: a surrogate without its partner and a byte that is left over are replaced and
  reported. Of the byte order marks the one of UTF-16BE is removed; the two that select another
  encoding are not handled here.\<close>

fun utf16be_units :: "u8 list \<Rightarrow> nat list \<times> bool" where
  "utf16be_units (a # b # bs) = (case utf16be_units bs of (us, left) \<Rightarrow> ((256 * unat a + unat b) # us, left))"
| "utf16be_units [a] = ([], True)"
| "utf16be_units [] = ([], False)"

fun utf16_chars :: "nat list \<Rightarrow> ustr \<times> bool" where
  "utf16_chars [] = ([], False)"
| "utf16_chars (u # us) =
    (if is_scalar u then (case utf16_chars us of (s, err) \<Rightarrow> (u # s, err))
     else (case us of
         v # vs \<Rightarrow>
           (if u < 0xDC00 \<and> 0xDC00 \<le> v \<and> v < 0xE000
            then (case utf16_chars vs of
                (s, err) \<Rightarrow> ((0x10000 + (u - 0xD800) * 1024 + (v - 0xDC00)) # s, err))
            else (case utf16_chars us of (s, err) \<Rightarrow> (0xFFFD # s, True)))
       | [] \<Rightarrow> ([0xFFFD], True)))"

definition utf16be_std :: "u8 list \<Rightarrow> ustr \<times> bool" where
  "utf16be_std bs =
    (case utf16be_units (if take 2 bs = [0xFE, 0xFF] then drop 2 bs else bs) of
       (us, left) \<Rightarrow> (case utf16_chars us of
         (s, err) \<Rightarrow> (if left then (s @ [0xFFFD], True) else (s, err))))"

lemma utf16be_units_ucs2: "list_all ucs2_char s \<Longrightarrow> utf16be_units (ucs2_bytes s) = (s, False)"
proof (induction s)
  case (Cons c s)
  then have "c < 0x10000" "utf16be_units (ucs2_bytes s) = (s, False)" by (simp_all add: ucs2_char_def)
  then show ?case by (simp add: ucs2_bytes_def unat_of_nat)
qed (simp add: ucs2_bytes_def)

lemma utf16be_std: "utf16_spec utf16be_std"
proof -
  have "utf16_chars s = (s, False)" if "list_all ucs2_char s" for s
    using that by (induction s) (simp_all add: ucs2_char_def)
  then show ?thesis
    by (auto simp: utf16_spec_def utf16be_std_def utf16be_units_ucs2 has_bom_def)
qed

definition std_build :: "bool \<Rightarrow> bool \<Rightarrow> bool \<Rightarrow> build" where
  "std_build asserts big checks =
    \<lparr>assertions = asserts, big_endian = big, overflow_checks = checks,
     nom_take = take_spec, nom_tag = tag_spec, nom_rest = rest_spec,
     nom_le_u8 = le_u8_spec, nom_le_u16 = le_spec 2, nom_be_u16 = be_spec 2,
     nom_le_u32 = le_spec 4, nom_be_u32 = be_spec 4,
     nom_length_data = length_data_spec, nom_count = count_spec,
     nom_alt_i32 = alt_spec, nom_alt_bool = alt_spec, nom_alt_str = alt_spec,
     nom_opt_u32 = opt_spec, nom_many1_time = many1_spec,
     bits8_from_bits_truncate = (\<lambda>all x. x AND all),
     bits8_contains = (\<lambda>x f. x AND f = f), bits8_union = (\<lambda>x f. x OR f),
     bits32_from_bits_truncate = (\<lambda>all x. x AND all),
     bits32_contains = (\<lambda>x f. x AND f = f), bits32_intersection = (\<lambda>x f. x AND f),
     month_try_from = (\<lambda>x. if 1 \<le> unat x \<and> unat x \<le> 12 then Some (unat x) else None),
     from_calendar_date = calendar_spec, from_hms = (\<lambda>h m s. hms_spec h m s 0),
     from_hms_milli = hms_spec,
     from_whole_seconds = (\<lambda>s. if \<bar>s\<bar> \<le> 93599 then Some s else None),
     assume_offset = (\<lambda>d t z. \<lparr>odt_date = d, odt_time = t, odt_offset = z\<rparr>),
     utf16be_decode = utf16be_std\<rparr>"

interpretation std: linked "build.extend (std_build asserts big checks) more"
  by unfold_locales
    (auto simp: std_build_def build.defs offset_spec_def utf16be_std intro!: exI [of _ "93599 :: int"])

section \<open>Lemmas on the documented behaviour\<close>

lemma take_spec_eq_Ret [simp]:
  "take_spec n i = Ret (r, x) \<longleftrightarrow> n \<le> length i \<and> r = drop n i \<and> x = take n i"
  by (auto simp: take_spec_def)

lemma take_spec_append [simp]:
  "length xs = n \<Longrightarrow> take_spec n (xs @ r) = Ret (r, xs)"
  by (simp add: take_spec_def)

lemma tag_spec_eq_Ret [simp]:
  "tag_spec t i = Ret (r, x) \<longleftrightarrow> i = t @ r \<and> x = t"
  by (auto simp: tag_spec_def) (metis append_take_drop_id)

lemma tag_spec_append [simp]: "tag_spec t (t @ r) = Ret (r, t)"
  by (simp add: tag_spec_def)

lemma le_u8_spec_simps [simp]:
  "le_u8_spec [] = Throw (NomError Eof)" "le_u8_spec (b # r) = Ret (r, b)"
  by (simp_all add: le_u8_spec_def)

lemma le_u8_spec_eq_Ret [simp]: "le_u8_spec i = Ret (r, b) \<longleftrightarrow> i = b # r"
  by (auto simp: le_u8_spec_def split: list.splits)

lemma rest_spec_simps [simp]: "rest_spec i = Ret ([], i)"
  by (simp add: rest_spec_def)

lemma le_spec_eq_Ret [simp]:
  "le_spec n i = Ret (r, w) \<longleftrightarrow>
     n \<le> length i \<and> r = drop n i \<and> w = of_nat (le_nat (take n i))"
  by (auto simp: le_spec_def take_spec_def)

lemma be_spec_eq_Ret [simp]:
  "be_spec n i = Ret (r, w) \<longleftrightarrow>
     n \<le> length i \<and> r = drop n i \<and> w = of_nat (le_nat (rev (take n i)))"
  by (auto simp: be_spec_def take_spec_def)

lemma unat_u8: "unat (b :: u8) < 256"
  using unsigned_less [of b, where 'a = nat] by simp

lemma le_nat_bound: "le_nat bs < 256 ^ length bs"
proof (induction bs)
  case (Cons b bs)
  have "unat b < 256" by (rule unat_u8)
  with Cons show ?case by simp
qed simp

section \<open>What a parser takes from its input\<close>

text \<open>\<open>consumes n p\<close>: what \<open>p\<close> leaves is a suffix of its input, at least \<open>n\<close> bytes shorter.
  \<open>no_panic p\<close>: \<open>p\<close> always returns.\<close>

definition consumes :: "nat \<Rightarrow> 'a parser \<Rightarrow> bool" where
  "consumes n p \<longleftrightarrow> (\<forall>i r x. p i = Ret (r, x) \<longrightarrow> (\<exists>k. n \<le> k \<and> k \<le> length i \<and> r = drop k i))"

definition no_panic :: "'a parser \<Rightarrow> bool" where
  "no_panic p \<longleftrightarrow> (\<forall>i. returns (p i))"

named_theorems consumes_intros
named_theorems no_panic_intros

lemma consumesI:
  "(\<And>i r x. p i = Ret (r, x) \<Longrightarrow> \<exists>k. n \<le> k \<and> k \<le> length i \<and> r = drop k i) \<Longrightarrow> consumes n p"
  by (simp add: consumes_def)

lemma consumesD:
  assumes "consumes n p" and "p i = Ret (r, x)"
  obtains k where "n \<le> k" "k \<le> length i" "r = drop k i"
  using assms unfolding consumes_def by blast

lemma consumes_length:
  assumes "consumes n p" and "p i = Ret (r, x)"
  shows "length r + n \<le> length i"
  by (rule consumesD [OF assms]) simp

lemma consumes_mono: "consumes n p \<Longrightarrow> m \<le> n \<Longrightarrow> consumes m p"
  unfolding consumes_def by (meson order_trans)

lemma consumes_and_then [consumes_intros]:
  assumes p: "consumes m p" and q: "\<And>x. consumes n (\<lambda>i. q i x)"
  shows "consumes (m + n) (\<lambda>i. and_then (p i) (\<lambda>(i, x). q i x))"
proof (rule consumesI)
  fix i r y assume "and_then (p i) (\<lambda>(i, x). q i x) = Ret (r, y)"
  then obtain j x where pj: "p i = Ret (j, x)" and qj: "q j x = Ret (r, y)" by auto
  obtain k where k: "m \<le> k" "k \<le> length i" "j = drop k i" by (rule consumesD [OF p pj])
  obtain k' where k': "n \<le> k'" "k' \<le> length j" "r = drop k' j" by (rule consumesD [OF q qj])
  have "r = drop (k' + k) i" "k' + k \<le> length i" using k k' by simp_all
  then show "\<exists>k. m + n \<le> k \<and> k \<le> length i \<and> r = drop k i"
    using k(1) k'(1) by (intro exI [of _ "k' + k"]) simp
qed

lemma consumes_Ret [consumes_intros]: "consumes 0 (\<lambda>i. Ret (i, x))"
  by (rule consumesI) (auto intro: exI [of _ 0])

lemma consumes_Throw [consumes_intros]: "consumes n (\<lambda>i. Throw e)" "consumes n (\<lambda>i. Panic)"
  by (simp_all add: consumes_def)

lemma consumes_take [consumes_intros]: "consumes n (take_spec n)"
  by (rule consumesI) auto

lemma consumes_tag [consumes_intros]: "consumes (length t) (tag_spec t)"
  by (rule consumesI) (auto intro: exI [of _ "length t"])

lemma consumes_le_u8 [consumes_intros]: "consumes 1 le_u8_spec"
  by (rule consumesI) (auto intro: exI [of _ 1])

lemma consumes_le [consumes_intros]: "consumes n (le_spec n)" "consumes n (be_spec n)"
  by (rule consumesI; auto)+

lemma no_panic_leaf [no_panic_intros]:
  "no_panic (take_spec n)" "no_panic (tag_spec t)" "no_panic le_u8_spec" "no_panic rest_spec"
  "no_panic (le_spec n)" "no_panic (be_spec n)"
  by (auto simp: no_panic_def take_spec_def tag_spec_def le_u8_spec_def le_spec_def be_spec_def
      split: list.splits)

lemma no_panicD: "no_panic p \<Longrightarrow> returns (p i)"
  by (simp add: no_panic_def)

lemma no_panic_and_then [no_panic_intros]:
  assumes "no_panic p" and "\<And>x. no_panic (\<lambda>i. q i x)"
  shows "no_panic (\<lambda>i. and_then (p i) (\<lambda>(i, x). q i x))"
  using assms by (auto simp: no_panic_def returns_and_then)

lemma no_panic_Ret [no_panic_intros]: "no_panic (\<lambda>i. Ret (i, x))" "no_panic (\<lambda>i. Throw e)"
  by (simp_all add: no_panic_def)

subsection \<open>Alternatives, options and repetitions of parsers\<close>

lemma alt_spec_Cons:
  "ps \<noteq> [] \<Longrightarrow> alt_spec (p # ps) i = (case p i of Throw (NomError e) \<Rightarrow> alt_spec ps i | r \<Rightarrow> r)"
  by (cases ps) auto

lemma alt_spec_eq_Ret:
  "alt_spec ps i = Ret y \<Longrightarrow> \<exists>p \<in> set ps. p i = Ret y"
proof (induction ps i rule: alt_spec.induct)
  case (3 p q qs i)
  then show ?case by (cases "p i") (auto split: nom_err.splits)
qed auto

lemma consumes_alt:
  "(\<And>p. p \<in> set ps \<Longrightarrow> consumes n p) \<Longrightarrow> consumes n (alt_spec ps)"
  by (rule consumesI) (metis alt_spec_eq_Ret consumesD)

lemma no_panic_alt:
  assumes "\<And>p. p \<in> set ps \<Longrightarrow> no_panic p"
  shows "no_panic (alt_spec ps)"
proof -
  have "returns (alt_spec ps i)" for i
    using assms
  proof (induction ps i rule: alt_spec.induct)
    case (3 p q qs i)
    have "returns (p i)" using "3.prems" by (simp add: no_panic_def)
    with 3 show ?case by (cases "p i") (auto split: nom_err.splits)
  qed (auto simp: no_panic_def)
  then show ?thesis by (simp add: no_panic_def)
qed

lemma consumes_opt: "consumes n p \<Longrightarrow> consumes 0 (opt_spec p)"
  by (rule consumesI)
    (force simp: opt_spec_def split: exec.splits nom_err.splits prod.splits elim: consumesD
      intro: exI [of _ 0])

lemma no_panic_opt: "no_panic p \<Longrightarrow> no_panic (opt_spec p)"
  unfolding no_panic_def opt_spec_def
  by (auto simp: returns_def split: exec.splits nom_err.splits)

lemma more_spec_drop:
  "more_spec p i = Ret (r, x) \<Longrightarrow> consumes n p \<Longrightarrow> \<exists>k. k \<le> length i \<and> r = drop k i"
proof (induction p i arbitrary: r x rule: more_spec.induct)
  case (1 p i)
  show ?case
  proof (cases "p i")
    case (Ret y)
    then obtain j a where j: "p i = Ret (j, a)" by (cases y) auto
    with "1.prems"(1) obtain xs where lt: "length j < length i"
      and rec: "more_spec p j = Ret (r, xs)"
      by (subst (asm) more_spec.simps) (auto split: if_splits)
    from "1.IH" [OF j refl lt rec "1.prems"(2)] obtain k where "k \<le> length j" "r = drop k j"
      by blast
    moreover obtain k' where "k' \<le> length i" "j = drop k' i"
      by (rule consumesD [OF "1.prems"(2) j])
    ultimately show ?thesis by (intro exI [of _ "k + k'"]) auto
  qed (use "1.prems" in \<open>subst (asm) more_spec.simps; auto split: nom_err.splits\<close>)+
qed

lemma consumes_more: "consumes n p \<Longrightarrow> consumes 0 (more_spec p)"
  by (rule consumesI) (auto dest: more_spec_drop)

lemma consumes_many1: "consumes n p \<Longrightarrow> consumes n (many1_spec p)"
  unfolding many1_spec_def
  by (rule consumes_mono, (rule consumes_intros consumes_more | assumption)+, simp)

lemma no_panic_more:
  assumes "no_panic p"
  shows "no_panic (more_spec p)"
proof -
  have "returns (more_spec p i)" for i
    using assms
  proof (induction p i rule: more_spec.induct)
    case (1 p i)
    have "returns (p i)" by (rule no_panicD [OF "1.prems"])
    with 1 show ?case
      by (subst more_spec.simps)
        (auto simp: returns_and_then elim!: returns_cases split: nom_err.splits)
  qed
  then show ?thesis by (simp add: no_panic_def)
qed

lemma no_panic_many1: "no_panic p \<Longrightarrow> no_panic (many1_spec p)"
  unfolding many1_spec_def
  by (rule no_panic_and_then, assumption, rule no_panic_and_then [OF no_panic_more])
    (auto intro: no_panic_intros)

end
