(* ===== verification/Errors.thy ===== *)
theory Errors
  imports Crates
begin

text \<open>
  \<open>cdfs/src/error.rs\<close>: the error type of the library and the conversions the \<open>?\<close> operator applies.
  The payload of a parse error is the \<open>ErrorKind\<close> of the build without \<open>verbose-error\<close>; with that
  feature the same errors carry a trace instead, which no code of the library reads.
\<close>

text \<open>\<open>std::io::Error\<close>: the kind the program itself makes, and whatever a reader reports.\<close>

datatype io_error = InvalidInput | ReaderError nat

datatype ISOError =
    Io io_error
  | Utf8
  | Utf16
  | InvalidFs string
  | ParseInt int_error
  | TryFromInt
  | ReadSize usize
  | Nom ErrorKind

fun from_nom_err :: "nom_err \<Rightarrow> (ISOError, 'a) exec" where
  "from_nom_err (NomError k) = Throw (Nom k)"
| "from_nom_err (NomFailure k) = Throw (Nom k)"
| "from_nom_err NomIncomplete = Panic"

definition try_nom :: "'a nom_res \<Rightarrow> (ISOError, u8 list \<times> 'a) exec" where
  "try_nom m = map_err from_nom_err m"

definition try_parse_int :: "int_error + 'a \<Rightarrow> (ISOError, 'a) exec" where
  "try_parse_int r = (case r of Inl e \<Rightarrow> Throw (ParseInt e) | Inr x \<Rightarrow> Ret x)"

lemma from_nom_err_neq [simp]: "from_nom_err e \<noteq> Ret x" "from_nom_err e \<noteq> Hang"
  by (cases e; simp)+

lemma try_nom_eq_Ret [simp]: "try_nom m = Ret x \<longleftrightarrow> m = Ret x"
  by (simp add: try_nom_def map_err_eq_Ret)

lemma try_nom_simps [simp]:
  "try_nom (Ret x) = Ret x" "try_nom (Throw (NomError k)) = Throw (Nom k)"
  "try_nom Panic = Panic" "try_nom Hang = Hang"
  by (simp_all add: try_nom_def)

lemma try_nom_eq_Hang [simp]: "try_nom m = Hang \<longleftrightarrow> m = Hang"
  by (cases m) (auto simp: try_nom_def)

lemma try_parse_int_simps [simp]:
  "try_parse_int (Inl e) = Throw (ParseInt e)" "try_parse_int (Inr x) = Ret x"
  by (simp_all add: try_parse_int_def)

end
