(* ===== verification/Both_Endian.thy ===== *)
theory Both_Endian
  imports Errors
begin

text \<open>
  \<open>cdfs/src/parse/both_endian.rs\<close>: integers recorded twice, first little then big endian. The
  decoders accept a mismatch (it is only logged) and return the copy the build selects.
\<close>

definition both_endian16 :: "'z build_scheme \<Rightarrow> u16 parser" where
  "both_endian16 B i =
    and_then (nom_le_u16 B i) (\<lambda>(i, little).
    and_then (nom_be_u16 B i) (\<lambda>(i, big).
    Ret (i, if big_endian B then big else little)))"

definition both_endian32 :: "'z build_scheme \<Rightarrow> u32 parser" where
  "both_endian32 B i =
    and_then (nom_le_u32 B i) (\<lambda>(i, little).
    and_then (nom_be_u32 B i) (\<lambda>(i, big).
    Ret (i, if big_endian B then big else little)))"

text \<open>The recording the standard prescribes (ECMA-119 7.2.3, 7.3.3), to state the round trip.\<close>

fun le_bytes :: "nat \<Rightarrow> nat \<Rightarrow> u8 list" where
  "le_bytes 0 x = []"
| "le_bytes (Suc n) x = of_nat x # le_bytes n (x div 256)"

definition enc_both :: "nat \<Rightarrow> 'w::len word \<Rightarrow> u8 list" where
  "enc_both n w = le_bytes n (unat w) @ rev (le_bytes n (unat w))"

lemma length_le_bytes [simp]: "length (le_bytes n x) = n"
  by (induction n arbitrary: x) auto

lemma length_enc_both [simp]: "length (enc_both n w) = 2 * n"
  by (simp add: enc_both_def)

lemma le_nat_le_bytes: "le_nat (le_bytes n x) = x mod 256 ^ n"
proof (induction n arbitrary: x)
  case (Suc n)
  have "le_nat (le_bytes (Suc n) x) = x mod 256 + 256 * ((x div 256) mod 256 ^ n)"
    by (simp add: Suc unat_of_nat)
  also have "\<dots> = x mod (256 * 256 ^ n)" by (simp add: mod_mult2_eq)
  finally show ?case by simp
qed simp

context linked begin

lemma both_endian32_eq:
  "both_endian32 B i =
    (if 8 \<le> length i
     then Ret (drop 8 i, of_nat (if big_endian B then le_nat (rev (take 4 (drop 4 i)))
                                 else le_nat (take 4 i)))
     else Throw (NomError Eof))"
  by (auto simp: both_endian32_def le_spec_def be_spec_def take_spec_def)

lemma both_endian16_eq:
  "both_endian16 B i =
    (if 4 \<le> length i
     then Ret (drop 4 i, of_nat (if big_endian B then le_nat (rev (take 2 (drop 2 i)))
                                 else le_nat (take 2 i)))
     else Throw (NomError Eof))"
  by (auto simp: both_endian16_def le_spec_def be_spec_def take_spec_def)

lemma both_endian_eq_Ret:
  "both_endian32 B i = Ret (r, x) \<Longrightarrow> 8 \<le> length i \<and> r = drop 8 i"
  "both_endian16 B i = Ret (r, y) \<Longrightarrow> 4 \<le> length i \<and> r = drop 4 i"
  by (auto simp: both_endian32_eq both_endian16_eq split: if_splits)

lemma consumes_both_endian [consumes_intros]:
  "consumes 8 (both_endian32 B)" "consumes 4 (both_endian16 B)"
  by (rule consumesI; auto simp: both_endian32_eq both_endian16_eq split: if_splits)+

lemma no_panic_both_endian [no_panic_intros]:
  "no_panic (both_endian32 B)" "no_panic (both_endian16 B)"
  by (auto simp: no_panic_def both_endian32_eq both_endian16_eq)

lemma both_endian32_enc: "both_endian32 B (enc_both 4 w @ r) = Ret (r, w)"
proof -
  have "unat w < 256 ^ 4" using unsigned_less [of w, where 'a = nat] by simp
  then have "le_nat (le_bytes 4 (unat w)) = unat w" by (simp add: le_nat_le_bytes)
  then show ?thesis by (simp add: both_endian32_eq enc_both_def)
qed

lemma both_endian16_enc: "both_endian16 B (enc_both 2 w @ r) = Ret (r, w)"
proof -
  have "unat w < 256 ^ 2" using unsigned_less [of w, where 'a = nat] by simp
  then have "le_nat (le_bytes 2 (unat w)) = unat w" by (simp add: le_nat_le_bytes)
  then show ?thesis by (simp add: both_endian16_eq enc_both_def)
qed

end

end
