(* ===== verification/Date_Time.thy ===== *)
theory Date_Time
  imports Both_Endian
begin

text \<open>
  \<open>cdfs/src/parse/date_time.rs\<close>: the seven byte recording date of directory records and \<open>TF\<close> entries,
  and the seventeen byte date of volume descriptors. Both replace a date, a time or an offset that
  the \<open>time\<close> crate rejects by a default.
\<close>

definition date_or_default :: "'z build_scheme \<Rightarrow> Date option \<Rightarrow> ('e, Date) exec" where
  "date_or_default B d =
    (case d of Some d \<Rightarrow> Ret d | None \<Rightarrow> unwrap (from_calendar_date B 0 1 1))"

definition time_or_default :: "'z build_scheme \<Rightarrow> Time option \<Rightarrow> ('e, Time) exec" where
  "time_or_default B t = (case t of Some t \<Rightarrow> Ret t | None \<Rightarrow> unwrap (from_hms B 0 0 0))"

definition date_time :: "'z build_scheme \<Rightarrow> OffsetDateTime parser" where
  "date_time B i =
    and_then (nom_le_u8 B i) (\<lambda>(i, year).
    and_then (nom_le_u8 B i) (\<lambda>(i, month).
    and_then (nom_le_u8 B i) (\<lambda>(i, day).
    and_then (nom_le_u8 B i) (\<lambda>(i, hour).
    and_then (nom_le_u8 B i) (\<lambda>(i, minute).
    and_then (nom_le_u8 B i) (\<lambda>(i, second).
    and_then (nom_le_u8 B i) (\<lambda>(i, gmt_offset).
    and_then (date_or_default B (from_calendar_date B (1900 + int (unat year))
        (case month_try_from B month of Some m \<Rightarrow> m | None \<Rightarrow> 1) day)) (\<lambda>date.
    and_then (time_or_default B (from_hms B hour minute second)) (\<lambda>time.
    let offset = (case from_whole_seconds B (int (unat gmt_offset) * 15 * 60) of
                    Some z \<Rightarrow> z | None \<Rightarrow> 0) in
    Ret (i, assume_offset B date time offset))))))))))"

text \<open>\<open>map_res(map_res(take(n), str::from_utf8), str::parse::<i32>)\<close>.\<close>

definition ascii_digits :: "'z build_scheme \<Rightarrow> usize \<Rightarrow> int parser" where
  "ascii_digits B n i =
    and_then (nom_take B n i) (\<lambda>(i, bytes).
    case from_utf8 bytes of None \<Rightarrow> Throw (NomError MapRes)
    | Some s \<Rightarrow> (case parse_i32 s of Inl e \<Rightarrow> Throw (NomError MapRes) | Inr x \<Rightarrow> Ret (i, x)))"

definition ascii_i32 :: "'z build_scheme \<Rightarrow> usize \<Rightarrow> int parser" where
  "ascii_i32 B n i =
    nom_alt_i32 B
      [ascii_digits B n,
       \<lambda>i. and_then (nom_count B (nom_tag B [0]) n i) (\<lambda>(i, _). Ret (i, 0))] i"

definition date_time_ascii :: "'z build_scheme \<Rightarrow> OffsetDateTime parser" where
  "date_time_ascii B i =
    and_then (ascii_i32 B 4 i) (\<lambda>(i, tm_year).
    and_then (ascii_i32 B 2 i) (\<lambda>(i, tm_mon).
    and_then (ascii_i32 B 2 i) (\<lambda>(i, tm_mday).
    and_then (ascii_i32 B 2 i) (\<lambda>(i, tm_hour).
    and_then (ascii_i32 B 2 i) (\<lambda>(i, tm_min).
    and_then (ascii_i32 B 2 i) (\<lambda>(i, tm_sec).
    and_then (ascii_i32 B 2 i) (\<lambda>(i, centisecond).
    and_then (nom_le_u8 B i) (\<lambda>(i, gmt_offset).
    and_then (date_or_default B (from_calendar_date B (1900 + tm_year)
        (case month_try_from B (word_of_int tm_mon) of Some m \<Rightarrow> m | None \<Rightarrow> 1)
        (word_of_int tm_mday))) (\<lambda>date.
    and_then (word_mul B (word_of_int centisecond) 10) (\<lambda>milli.
    and_then (time_or_default B (from_hms_milli B (word_of_int tm_hour) (word_of_int tm_min)
        (word_of_int tm_sec) milli)) (\<lambda>time.
    let offset = (case from_whole_seconds B (int (unat gmt_offset) * 15 * 60) of
                    Some z \<Rightarrow> z | None \<Rightarrow> 0) in
    Ret (i, assume_offset B date time offset))))))))))))"

section \<open>Lemmas\<close>

text \<open>What the decoder makes of seven bytes.\<close>

definition decode_date :: "u8 \<Rightarrow> u8 \<Rightarrow> u8 \<Rightarrow> Date" where
  "decode_date y m d =
    (case calendar_spec (1900 + int (unat y))
            (if 1 \<le> unat m \<and> unat m \<le> 12 then unat m else 1) d of
       Some x \<Rightarrow> x | None \<Rightarrow> \<lparr>date_year = 0, date_month = 1, date_day = 1\<rparr>)"

definition decode_time :: "u8 \<Rightarrow> u8 \<Rightarrow> u8 \<Rightarrow> Time" where
  "decode_time h m s =
    (case hms_spec h m s 0 of
       Some x \<Rightarrow> x
     | None \<Rightarrow> \<lparr>time_hour = 0, time_minute = 0, time_second = 0, time_milli = 0\<rparr>)"

definition decode_offset :: "'z build_scheme \<Rightarrow> u8 \<Rightarrow> UtcOffset" where
  "decode_offset B z =
    (case from_whole_seconds B (int (unat z) * 15 * 60) of Some x \<Rightarrow> x | None \<Rightarrow> 0)"

context linked begin

lemma date_or_default_eq:
  "date_or_default B d =
    Ret (case d of Some d \<Rightarrow> d | None \<Rightarrow> \<lparr>date_year = 0, date_month = 1, date_day = 1\<rparr>)"
proof -
  have "from_calendar_date B 0 1 1 = Some \<lparr>date_year = 0, date_month = 1, date_day = 1\<rparr>"
    by (simp add: calendar_spec_def days_in_month_def)
  then show ?thesis by (simp add: date_or_default_def del: from_calendar_date split: option.splits)
qed

lemma time_or_default_eq:
  "time_or_default B t =
    Ret (case t of Some t \<Rightarrow> t
         | None \<Rightarrow> \<lparr>time_hour = 0, time_minute = 0, time_second = 0, time_milli = 0\<rparr>)"
  by (auto simp: time_or_default_def hms_spec_def split: option.splits)

lemma date_time_Cons:
  "date_time B (y # m # d # h # mi # s # z # r) =
    Ret (r, \<lparr>odt_date = decode_date y m d, odt_time = decode_time h mi s,
             odt_offset = decode_offset B z\<rparr>)"
  by (simp add: date_time_def date_or_default_eq time_or_default_eq decode_date_def
      decode_time_def decode_offset_def)

lemma date_time_short: "length i < 7 \<Longrightarrow> date_time B i = Throw (NomError Eof)"
proof -
  assume "length i < 7"
  then consider "i = []" | a where "i = [a]" | a b where "i = [a, b]" | a b c where "i = [a, b, c]"
    | a b c d where "i = [a, b, c, d]" | a b c d e where "i = [a, b, c, d, e]"
    | a b c d e f where "i = [a, b, c, d, e, f]"
    by (auto simp: numeral_eq_Suc less_Suc_eq length_Suc_conv)
  then show ?thesis by cases (simp_all add: date_time_def)
qed

lemma consumes_date_time [consumes_intros]: "consumes 7 (date_time B)"
  unfolding date_time_def Let_def date_or_default_eq time_or_default_eq and_then.simps le_u8
  by (rule consumes_mono, (rule consumes_intros)+, simp)

lemma date_time_eq_Ret: "date_time B i = Ret (r, t) \<Longrightarrow> 7 \<le> length i \<and> r = drop 7 i"
  by (auto simp: date_time_def Let_def date_or_default_eq time_or_default_eq)

lemma no_panic_date_time [no_panic_intros]: "no_panic (date_time B)"
  unfolding date_time_def Let_def date_or_default_eq time_or_default_eq and_then.simps le_u8
  by (intro no_panic_intros)

end

end
