(* ===== verification/Char_Encoding.thy ===== *)
theory Char_Encoding
  imports Date_Time
begin

text \<open>
  \<open>cdfs/src/parse/mod.rs\<close>: the character encoding a volume descriptor declares and the decoding of
  strings. \<open>enc_build\<close> adds the instance of \<open>nom\<close>'s \<open>alt\<close> used here to the build, \<open>linked_enc\<close> its
  documented behaviour.
\<close>

datatype CharacterEncoding = Iso9660 | Ucs2Level1 | Ucs2Level2 | Ucs2Level3

record enc_build = build +
  nom_alt_enc :: "CharacterEncoding parser list \<Rightarrow> CharacterEncoding parser"

locale linked_enc = linked B for B :: "'z enc_build_scheme" +
  assumes alt_enc [simp]: "nom_alt_enc B = alt_spec"

text \<open>\<open>value(v, p)\<close>.\<close>

definition value_of :: "'a \<Rightarrow> 'b parser \<Rightarrow> 'a parser" where
  "value_of v p i = and_then (p i) (\<lambda>(i, _). Ret (i, v))"

definition character_encoding :: "'z enc_build_scheme \<Rightarrow> CharacterEncoding parser" where
  "character_encoding B bytes =
    (let orig_len = length bytes in
     and_then (nom_alt_enc B
       [value_of Ucs2Level1 (nom_tag B [0x25, 0x2F, 0x40]),
        value_of Ucs2Level2 (nom_tag B [0x25, 0x2F, 0x43]),
        value_of Ucs2Level3 (nom_tag B [0x25, 0x2F, 0x45]),
        value_of Iso9660 (nom_tag B (replicate 32 0))] bytes) (\<lambda>(bytes, encoding).
     and_then (usize_sub B orig_len (length bytes)) (\<lambda>len.
     and_then (if len < 32 then and_then (nom_take B (32 - len) bytes) (\<lambda>(bytes, _). Ret bytes)
               else Ret bytes) (\<lambda>bytes.
     Ret (bytes, encoding)))))"

definition CharacterEncoding_parse ::
    "'z enc_build_scheme \<Rightarrow> u8 list \<Rightarrow> (ISOError, CharacterEncoding) exec" where
  "CharacterEncoding_parse B input =
    and_then (try_nom (character_encoding B input)) (\<lambda>(_, encoding). Ret encoding)"

definition decode_string :: "'z build_scheme \<Rightarrow> CharacterEncoding \<Rightarrow> ustr parser" where
  "decode_string B encoding i =
    (if encoding = Iso9660 then
       and_then (nom_rest B i) (\<lambda>(i, bytes).
       case from_utf8 bytes of None \<Rightarrow> Throw (NomError MapRes)
       | Some s \<Rightarrow> Ret (i, trim_end s))
     else
       and_then (nom_rest B i) (\<lambda>(i, input).
       case utf16be_decode B input of (s, had_errors) \<Rightarrow>
       and_then (assertion B (\<not> had_errors)) (\<lambda>_.
       Ret (i, trim_end s))))"

section \<open>Lemmas\<close>

definition std_enc_build :: "bool \<Rightarrow> bool \<Rightarrow> bool \<Rightarrow> enc_build" where
  "std_enc_build asserts big checks =
    build.extend (std_build asserts big checks) \<lparr>nom_alt_enc = alt_spec\<rparr>"

lemma value_of_simps [simp]:
  "value_of v p i = Ret (r, x) \<longleftrightarrow> (\<exists>y. p i = Ret (r, y)) \<and> x = v"
  by (auto simp: value_of_def)

lemma consumes_value [consumes_intros]: "consumes n p \<Longrightarrow> consumes n (value_of v p)"
  unfolding value_of_def by (rule consumes_mono, rule consumes_and_then) (auto intro: consumes_Ret)

lemma no_panic_value [no_panic_intros]: "no_panic p \<Longrightarrow> no_panic (value_of v p)"
  unfolding value_of_def by (intro no_panic_intros)

context linked begin

lemma decode_string_iso:
  "decode_string B Iso9660 i =
    (case from_utf8 i of None \<Rightarrow> Throw (NomError MapRes) | Some s \<Rightarrow> Ret ([], trim_end s))"
  by (simp add: decode_string_def)

lemma decode_string_rest: "decode_string B enc i = Ret (r, s) \<Longrightarrow> r = []"
  by (auto simp: decode_string_def split: if_splits option.splits prod.splits)

lemma decode_string_trimmed:
  "decode_string B enc i = Ret (r, s) \<Longrightarrow> s = [] \<or> \<not> is_whitespace (last s)"
proof -
  have *: "trim_end t = [] \<or> \<not> is_whitespace (last (trim_end t))" for t
    by (metis hd_dropWhile last_rev rev_is_Nil_conv trim_end_def)
  assume "decode_string B enc i = Ret (r, s)"
  then obtain t where "s = trim_end t"
    by (auto simp: decode_string_def split: if_splits option.splits prod.splits)
  with * show ?thesis by simp
qed

lemma decode_string_not_Hang: "decode_string B enc i \<noteq> Hang"
  by (auto simp: decode_string_def and_then_eq_Hang split: option.splits prod.splits)

end

interpretation std_enc: linked_enc "enc_build.extend (std_enc_build asserts big checks) more"
  by unfold_locales
    (auto simp: std_enc_build_def std_build_def build.defs enc_build.defs offset_spec_def utf16be_std
      intro!: exI [of _ "93599 :: int"])

end
