(* ===== verification/Susp.thy ===== *)
theory Susp
  imports Char_Encoding
begin

text \<open>
  \<open>cdfs/src/parse/susp.rs\<close>: the System Use Sharing Protocol entries of a directory record and their
  Rock Ridge variants. The first section has the data, the second the parsers in the order of the
  source; \<open>susp_build\<close> adds the instances of generic crate functions used on these types.
\<close>

section \<open>Data\<close>

datatype SuspExtension = RockRidge1_09 | RockRidge1_12

record AlternateName =
  an_name :: ustr
  an_flags :: u8

abbreviation (input) AlternateName_CONTINUE :: u8 where "AlternateName_CONTINUE \<equiv> 1"

definition AlternateNameFlags_all :: u8 where
  "AlternateNameFlags_all = 1 OR 2 OR 4 OR 32"

type_synonym ChildLink = u32

record ContinuationArea =
  block_location :: u32
  ce_offset :: u32
  ce_length :: u32

record ExtensionsReference =
  er_extensions :: "SuspExtension list"

record PosixTimestamp =
  ts_access :: "OffsetDateTime option"
  ts_attributes :: "OffsetDateTime option"
  ts_backup :: "OffsetDateTime option"
  ts_creation :: "OffsetDateTime option"
  ts_effective :: "OffsetDateTime option"
  ts_expiration :: "OffsetDateTime option"
  ts_modify :: "OffsetDateTime option"

definition PosixTimestamp_default :: PosixTimestamp where
  "PosixTimestamp_default =
    \<lparr>ts_access = None, ts_attributes = None, ts_backup = None, ts_creation = None,
     ts_effective = None, ts_expiration = None, ts_modify = None\<rparr>"

text \<open>\<open>PosixTimestampFlags\<close>.\<close>

abbreviation (input) TF_CREATION :: u8 where "TF_CREATION \<equiv> 1"
abbreviation (input) TF_MODIFY :: u8 where "TF_MODIFY \<equiv> 2"
abbreviation (input) TF_ACCESS :: u8 where "TF_ACCESS \<equiv> 4"
abbreviation (input) TF_ATTRIBUTES :: u8 where "TF_ATTRIBUTES \<equiv> 8"
abbreviation (input) TF_BACKUP :: u8 where "TF_BACKUP \<equiv> 16"
abbreviation (input) TF_EXPIRATION :: u8 where "TF_EXPIRATION \<equiv> 32"
abbreviation (input) TF_EFFECTIVE :: u8 where "TF_EFFECTIVE \<equiv> 64"
abbreviation (input) TF_LONG_FORM :: u8 where "TF_LONG_FORM \<equiv> 128"

definition PosixTimestampFlags_all :: u8 where
  "PosixTimestampFlags_all = TF_CREATION OR TF_MODIFY OR TF_ACCESS OR TF_ATTRIBUTES OR TF_BACKUP
     OR TF_EXPIRATION OR TF_EFFECTIVE OR TF_LONG_FORM"

text \<open>\<open>PosixFileMode\<close>: the octal constants of the source.\<close>

abbreviation (input) TYPE_SOCKET :: u32 where "TYPE_SOCKET \<equiv> 0xC000"
abbreviation (input) TYPE_SYMLINK :: u32 where "TYPE_SYMLINK \<equiv> 0xA000"
abbreviation (input) TYPE_FILE :: u32 where "TYPE_FILE \<equiv> 0x8000"
abbreviation (input) TYPE_BLOCK_DEV :: u32 where "TYPE_BLOCK_DEV \<equiv> 0x6000"
abbreviation (input) TYPE_DIRECTORY :: u32 where "TYPE_DIRECTORY \<equiv> 0x4000"
abbreviation (input) TYPE_CHAR_DEV :: u32 where "TYPE_CHAR_DEV \<equiv> 0x2000"
abbreviation (input) TYPE_PIPE :: u32 where "TYPE_PIPE \<equiv> 0x1000"
abbreviation (input) SET_UID :: u32 where "SET_UID \<equiv> 0x800"
abbreviation (input) SET_GID :: u32 where "SET_GID \<equiv> 0x400"
abbreviation (input) LOCKABLE :: u32 where "LOCKABLE \<equiv> 0x400"
abbreviation (input) STICKY :: u32 where "STICKY \<equiv> 0x200"
abbreviation (input) OWN_READ :: u32 where "OWN_READ \<equiv> 0x100"
abbreviation (input) OWN_WRITE :: u32 where "OWN_WRITE \<equiv> 0x80"
abbreviation (input) OWN_EXEC :: u32 where "OWN_EXEC \<equiv> 0x40"
abbreviation (input) GROUP_READ :: u32 where "GROUP_READ \<equiv> 0x20"
abbreviation (input) GROUP_WRITE :: u32 where "GROUP_WRITE \<equiv> 0x10"
abbreviation (input) GROUP_EXEC :: u32 where "GROUP_EXEC \<equiv> 8"
abbreviation (input) WORLD_READ :: u32 where "WORLD_READ \<equiv> 4"
abbreviation (input) WORLD_WRITE :: u32 where "WORLD_WRITE \<equiv> 2"
abbreviation (input) WORLD_EXEC :: u32 where "WORLD_EXEC \<equiv> 1"

definition ALL_PERMISSIONS :: u32 where
  "ALL_PERMISSIONS = OWN_READ OR OWN_WRITE OR OWN_EXEC OR SET_UID
     OR GROUP_READ OR GROUP_WRITE OR GROUP_EXEC OR SET_GID
     OR WORLD_READ OR WORLD_WRITE OR WORLD_EXEC"

definition PosixFileMode_all :: u32 where
  "PosixFileMode_all = TYPE_SOCKET OR TYPE_SYMLINK OR TYPE_FILE OR TYPE_BLOCK_DEV
     OR TYPE_DIRECTORY OR TYPE_CHAR_DEV OR TYPE_PIPE OR SET_UID OR SET_GID OR LOCKABLE OR STICKY
     OR OWN_READ OR OWN_WRITE OR OWN_EXEC OR GROUP_READ OR GROUP_WRITE OR GROUP_EXEC
     OR WORLD_READ OR WORLD_WRITE OR WORLD_EXEC OR ALL_PERMISSIONS"

record PosixAttributes =
  px_mode :: u32
  px_links :: u32
  px_uid :: u32
  px_gid :: u32
  px_inode :: "u32 option"

type_synonym RelocatedDirectory = bool

record RockRidge =
  rr_flags :: u8

definition RockRidgeFlags_all :: u8 where
  "RockRidgeFlags_all = 1 OR 2 OR 4 OR 8 OR 16 OR 32 OR 64 OR 128"

record SuspIndicator =
  sp_skip :: u8

text \<open>\<open>SymbolicLinkRecordFlags\<close>.\<close>

abbreviation (input) SL_CONTINUE :: u8 where "SL_CONTINUE \<equiv> 1"
abbreviation (input) SL_CURRENT :: u8 where "SL_CURRENT \<equiv> 2"
abbreviation (input) SL_PARENT :: u8 where "SL_PARENT \<equiv> 4"
abbreviation (input) SL_ROOT :: u8 where "SL_ROOT \<equiv> 8"
abbreviation (input) SL_VOLUME_ROOT :: u8 where "SL_VOLUME_ROOT \<equiv> 16"
abbreviation (input) SL_HOSTNAME :: u8 where "SL_HOSTNAME \<equiv> 32"

definition SymbolicLinkRecordFlags_all :: u8 where
  "SymbolicLinkRecordFlags_all = SL_CONTINUE OR SL_CURRENT OR SL_PARENT OR SL_ROOT
     OR SL_VOLUME_ROOT OR SL_HOSTNAME"

record SymbolicLinkRecord =
  sl_flags :: u8
  sl_component :: ustr

record SymbolicLink =
  should_continue :: bool
  sl_records :: "SymbolicLinkRecord list"

record Unknown =
  un_sig :: "u8 \<times> u8"
  un_version :: u8
  un_data :: "u8 list"

datatype SystemUseEntry =
    ContinuationArea ContinuationArea
  | ExtensionsReference ExtensionsReference
  | SuspIndicator SuspIndicator
  | AlternateName AlternateName
  | PosixAttributes PosixAttributes
  | PosixTimestamp PosixTimestamp
  | RockRidge RockRidge
  | SymbolicLink SymbolicLink
  | ChildLink ChildLink
  | RelocatedDirectory RelocatedDirectory
  | Unknown Unknown

text \<open>The crate functions at these types: \<open>alt\<close>, \<open>opt\<close> and \<open>many1\<close> of \<open>nom\<close>, and
  \<open>take_while_inclusive\<close> of \<open>itertools\<close>, which \<open>read_entry_at\<close> uses on \<open>NM\<close> and \<open>SL\<close> entries.\<close>

record susp_build = enc_build +
  nom_alt_sue :: "SystemUseEntry parser list \<Rightarrow> SystemUseEntry parser"
  nom_opt_sues :: "SystemUseEntry list parser \<Rightarrow> SystemUseEntry list option parser"
  nom_many1_sue :: "SystemUseEntry parser \<Rightarrow> SystemUseEntry list parser"
  nom_many1_ext :: "SuspExtension parser \<Rightarrow> SuspExtension list parser"
  nom_many1_rec :: "SymbolicLinkRecord parser \<Rightarrow> SymbolicLinkRecord list parser"
  take_while_inclusive_nm :: "(AlternateName \<Rightarrow> bool) \<Rightarrow> AlternateName list \<Rightarrow> AlternateName list"
  take_while_inclusive_sl :: "(SymbolicLink \<Rightarrow> bool) \<Rightarrow> SymbolicLink list \<Rightarrow> SymbolicLink list"

locale linked_susp = linked_enc B for B :: "'z susp_build_scheme" +
  assumes alt_sue [simp]: "nom_alt_sue B = alt_spec"
    and opt_sues [simp]: "nom_opt_sues B = opt_spec"
    and many1_sue [simp]: "nom_many1_sue B = many1_spec"
    and many1_ext [simp]: "nom_many1_ext B = many1_spec"
    and many1_rec [simp]: "nom_many1_rec B = many1_spec"
    and take_while_nm [simp]: "take_while_inclusive_nm B = take_while_inclusive_spec"
    and take_while_sl [simp]: "take_while_inclusive_sl B = take_while_inclusive_spec"

section \<open>The trait \<open>ParseSusp\<close>\<close>

definition parse_sig ::
    "'z build_scheme \<Rightarrow> u8 list option \<Rightarrow> (u8 list \<times> u8 \<times> u8 \<times> u8 list) parser" where
  "parse_sig B SIGNATURE input =
    and_then (case SIGNATURE of
                Some signature \<Rightarrow> nom_tag B signature input
              | None \<Rightarrow> nom_take B 2 input) (\<lambda>(input, sig).
    and_then (nom_le_u8 B input) (\<lambda>(input, length).
    and_then (nom_le_u8 B input) (\<lambda>(input, version).
    if length = 0 then Throw (NomError Fail)
    else
      and_then (usize_sub B (unat length) 4) (\<lambda>remainder.
      and_then (nom_take B remainder input) (\<lambda>(input, data).
      Ret (input, sig, length, version, data))))))"

text \<open>\<open>sig.try_into().unwrap()\<close>: a slice as an array of two bytes.\<close>

definition sig_array :: "u8 list \<Rightarrow> ('e, u8 \<times> u8) exec" where
  "sig_array sig = (case sig of [a, b] \<Rightarrow> Ret (a, b) | _ \<Rightarrow> Panic)"

definition susp_parse ::
    "'z build_scheme \<Rightarrow> u8 list option \<Rightarrow> (u8 list \<Rightarrow> u8 \<times> u8 \<Rightarrow> u8 \<Rightarrow> 'a nom_res) \<Rightarrow> 'a parser" where
  "susp_parse B SIGNATURE parse_data input =
    and_then (parse_sig B SIGNATURE input) (\<lambda>(input, sig, _, version, data).
    and_then (sig_array sig) (\<lambda>sig.
    and_then (parse_data data sig version) (\<lambda>(_, entry).
    Ret (input, entry))))"

text \<open>The assertions at the head of each \<open>parse_data\<close>.\<close>

definition sig_version_ok :: "'z build_scheme \<Rightarrow> u8 \<times> u8 \<Rightarrow> u8 \<times> u8 \<Rightarrow> u8 \<Rightarrow> ('e, unit) exec" where
  "sig_version_ok B expected sig version = assertion B (expected = sig \<and> version = 1)"

section \<open>The entries\<close>

definition AlternateName_parse_data ::
    "'z build_scheme \<Rightarrow> u8 list \<Rightarrow> u8 \<times> u8 \<Rightarrow> u8 \<Rightarrow> AlternateName nom_res" where
  "AlternateName_parse_data B input sig version =
    and_then (sig_version_ok B (78, 77) sig version) (\<lambda>_.
    and_then (nom_le_u8 B input) (\<lambda>(input, flags).
    let flags = bits8_from_bits_truncate B AlternateNameFlags_all flags in
    and_then (nom_rest B input) (\<lambda>(input, name).
    case from_utf8 name of None \<Rightarrow> Throw (NomError MapRes)
    | Some s \<Rightarrow> Ret (input, \<lparr>an_name = trim_matches 0 s, an_flags = flags\<rparr>))))"

definition ChildLink_parse_data ::
    "'z build_scheme \<Rightarrow> u8 list \<Rightarrow> u8 \<times> u8 \<Rightarrow> u8 \<Rightarrow> ChildLink nom_res" where
  "ChildLink_parse_data B input sig version =
    and_then (sig_version_ok B (67, 76) sig version) (\<lambda>_.
    and_then (both_endian32 B input) (\<lambda>(input, lba).
    Ret (input, lba)))"

definition ContinuationArea_parse_data ::
    "'z build_scheme \<Rightarrow> u8 list \<Rightarrow> u8 \<times> u8 \<Rightarrow> u8 \<Rightarrow> ContinuationArea nom_res" where
  "ContinuationArea_parse_data B input sig version =
    and_then (sig_version_ok B (67, 69) sig version) (\<lambda>_.
    and_then (assertion B (length input = 24)) (\<lambda>_.
    and_then (both_endian32 B input) (\<lambda>(input, block_location).
    and_then (both_endian32 B input) (\<lambda>(input, offset).
    and_then (both_endian32 B input) (\<lambda>(input, length).
    Ret (input, \<lparr>block_location = block_location, ce_offset = offset, ce_length = length\<rparr>))))))"

text \<open>\<open>map(map(map_res(take(n), str::from_utf8), str::trim_end), str::to_string)\<close>.\<close>

definition take_str :: "'z build_scheme \<Rightarrow> usize \<Rightarrow> ustr parser" where
  "take_str B n input =
    and_then (nom_take B n input) (\<lambda>(input, bytes).
    case from_utf8 bytes of None \<Rightarrow> Throw (NomError MapRes)
    | Some s \<Rightarrow> Ret (input, trim_end s))"

definition susp_extension :: "'z build_scheme \<Rightarrow> SuspExtension parser" where
  "susp_extension B input =
    and_then (nom_le_u8 B input) (\<lambda>(input, id_len).
    and_then (nom_le_u8 B input) (\<lambda>(input, description_len).
    and_then (nom_le_u8 B input) (\<lambda>(input, source_len).
    and_then (nom_le_u8 B input) (\<lambda>(input, version).
    and_then (take_str B (unat id_len) input) (\<lambda>(input, id).
    and_then (take_str B (unat description_len) input) (\<lambda>(input, description).
    and_then (take_str B (unat source_len) input) (\<lambda>(input, source).
    if id = lit ''RRIP_1991A'' \<and> version = 1 then Ret (input, RockRidge1_09)
    else if id = lit ''IEEE_P1282'' \<and> version = 1 then Ret (input, RockRidge1_12)
    else if id = lit ''IEEE_1282'' \<and> version = 1 then Ret (input, RockRidge1_12)
    else Panic)))))))"

definition ExtensionsReference_parse_data ::
    "'z susp_build_scheme \<Rightarrow> u8 list \<Rightarrow> u8 \<times> u8 \<Rightarrow> u8 \<Rightarrow> ExtensionsReference nom_res" where
  "ExtensionsReference_parse_data B input sig version =
    and_then (sig_version_ok B (69, 82) sig version) (\<lambda>_.
    and_then (nom_many1_ext B (susp_extension B) input) (\<lambda>(input, extensions).
    Ret (input, \<lparr>er_extensions = extensions\<rparr>)))"

text \<open>\<open>impl From<PosixFileMode> for u16\<close>.\<close>

definition u16_from_PosixFileMode :: "'z build_scheme \<Rightarrow> u32 \<Rightarrow> ('e, u16) exec" where
  "u16_from_PosixFileMode B mode =
    (let bits = bits32_intersection B mode ALL_PERMISSIONS
     in unwrap (if unat bits < 65536 then Some (ucast bits) else None))"

text \<open>\<open>impl Display for PosixFileMode\<close>.\<close>

definition PosixFileMode_fmt :: "'z build_scheme \<Rightarrow> u32 \<Rightarrow> ('e, string) exec" where
  "PosixFileMode_fmt B mode =
    (let has = bits32_contains B mode in
     and_then
       (if has TYPE_SOCKET then Ret ''s''
        else if has TYPE_SYMLINK then Ret ''l''
        else if has TYPE_FILE then Ret ''-''
        else if has TYPE_BLOCK_DEV then Ret ''b''
        else if has TYPE_DIRECTORY then Ret ''d''
        else if has TYPE_CHAR_DEV then Ret ''c''
        else if has TYPE_PIPE then Ret ''p''
        else if assertions B then Panic
        else Ret ''?'') (\<lambda>file_type.
     Ret (file_type
       @ (if has OWN_READ then ''r'' else ''-'')
       @ (if has OWN_WRITE then ''w'' else ''-'')
       @ (if has OWN_EXEC then (if has SET_UID then ''S'' else ''x'')
          else if has SET_UID then ''s'' else ''-'')
       @ (if has GROUP_READ then ''r'' else ''-'')
       @ (if has GROUP_WRITE then ''w'' else ''-'')
       @ (if has GROUP_EXEC then (if has SET_GID then ''S'' else ''x'')
          else if has SET_GID then ''s'' else ''-'')
       @ (if has WORLD_READ then ''r'' else ''-'')
       @ (if has WORLD_WRITE then ''w'' else ''-'')
       @ (if has WORLD_EXEC then ''x'' else ''-''))))"

text \<open>\<open>match flags.contains(flag) { true => it.next(), false => None }\<close>.\<close>

definition next_if :: "bool \<Rightarrow> 'a list \<Rightarrow> 'a option \<times> 'a list" where
  "next_if b it =
    (if b then (case it of [] \<Rightarrow> (None, []) | x # xs \<Rightarrow> (Some x, xs)) else (None, it))"

definition PosixTimestamp_parse_data ::
    "'z build_scheme \<Rightarrow> u8 list \<Rightarrow> u8 \<times> u8 \<Rightarrow> u8 \<Rightarrow> PosixTimestamp nom_res" where
  "PosixTimestamp_parse_data B input sig version =
    and_then (sig_version_ok B (84, 70) sig version) (\<lambda>_.
    and_then (nom_le_u8 B input) (\<lambda>(input, flags).
    let flags = bits8_from_bits_truncate B PosixTimestampFlags_all flags in
    and_then (nom_many1_time B (date_time B) input) (\<lambda>(input, it).
    let (creation, it) = next_if (bits8_contains B flags TF_CREATION) it;
        (modify, it) = next_if (bits8_contains B flags TF_MODIFY) it;
        (access, it) = next_if (bits8_contains B flags TF_ACCESS) it;
        (attributes, it) = next_if (bits8_contains B flags TF_ATTRIBUTES) it;
        (backup, it) = next_if (bits8_contains B flags TF_BACKUP) it;
        (expiration, it) = next_if (bits8_contains B flags TF_EXPIRATION) it;
        (effective, it) = next_if (bits8_contains B flags TF_EFFECTIVE) it
    in Ret (input,
      \<lparr>ts_access = access, ts_attributes = attributes, ts_backup = backup, ts_creation = creation,
       ts_effective = effective, ts_expiration = expiration, ts_modify = modify\<rparr>))))"

definition PosixAttributes_parse_data ::
    "'z build_scheme \<Rightarrow> u8 list \<Rightarrow> u8 \<times> u8 \<Rightarrow> u8 \<Rightarrow> PosixAttributes nom_res" where
  "PosixAttributes_parse_data B input sig version =
    and_then (sig_version_ok B (80, 88) sig version) (\<lambda>_.
    and_then (assertion B (length input = 32 \<or> length input = 40)) (\<lambda>_.
    and_then (both_endian32 B input) (\<lambda>(input, mode).
    let mode = bits32_from_bits_truncate B PosixFileMode_all mode in
    and_then (both_endian32 B input) (\<lambda>(input, links).
    and_then (both_endian32 B input) (\<lambda>(input, uid).
    and_then (both_endian32 B input) (\<lambda>(input, gid).
    and_then (nom_opt_u32 B (both_endian32 B) input) (\<lambda>(input, inode).
    Ret (input, \<lparr>px_mode = mode, px_links = links, px_uid = uid, px_gid = gid,
                 px_inode = inode\<rparr>))))))))"

definition RelocatedDirectory_parse_data ::
    "'z build_scheme \<Rightarrow> u8 list \<Rightarrow> u8 \<times> u8 \<Rightarrow> u8 \<Rightarrow> RelocatedDirectory nom_res" where
  "RelocatedDirectory_parse_data B input sig version =
    and_then (sig_version_ok B (82, 69) sig version) (\<lambda>_.
    and_then (assertion B (length input = 0)) (\<lambda>_.
    Ret (input, True)))"

definition RockRidge_parse_data ::
    "'z build_scheme \<Rightarrow> u8 list \<Rightarrow> u8 \<times> u8 \<Rightarrow> u8 \<Rightarrow> RockRidge nom_res" where
  "RockRidge_parse_data B input sig version =
    and_then (assertion B ((82, 82) = sig)) (\<lambda>_.
    and_then (assertion B (length input = 1)) (\<lambda>_.
    and_then (assertion B (version = 1)) (\<lambda>_.
    and_then (nom_le_u8 B input) (\<lambda>(input, flags).
    Ret (input, \<lparr>rr_flags = bits8_from_bits_truncate B RockRidgeFlags_all flags\<rparr>)))))"

definition SuspIndicator_parse_data ::
    "'z build_scheme \<Rightarrow> u8 list \<Rightarrow> u8 \<times> u8 \<Rightarrow> u8 \<Rightarrow> SuspIndicator nom_res" where
  "SuspIndicator_parse_data B input sig version =
    and_then (sig_version_ok B (83, 80) sig version) (\<lambda>_.
    and_then (nom_tag B [0xBE, 0xEF] input) (\<lambda>(input, _).
    and_then (nom_le_u8 B input) (\<lambda>(input, skip).
    Ret (input, \<lparr>sp_skip = skip\<rparr>))))"

definition SymbolicLinkRecord_parse :: "'z build_scheme \<Rightarrow> SymbolicLinkRecord parser" where
  "SymbolicLinkRecord_parse B input =
    and_then (nom_le_u8 B input) (\<lambda>(input, flags).
    let flags = bits8_from_bits_truncate B SymbolicLinkRecordFlags_all flags in
    and_then (nom_length_data B (nom_le_u8 B) input) (\<lambda>(input, component).
    case from_utf8 component of None \<Rightarrow> Throw (NomError MapRes)
    | Some s \<Rightarrow> Ret (input, \<lparr>sl_flags = flags, sl_component = s\<rparr>)))"

definition SymbolicLink_parse_data ::
    "'z susp_build_scheme \<Rightarrow> u8 list \<Rightarrow> u8 \<times> u8 \<Rightarrow> u8 \<Rightarrow> SymbolicLink nom_res" where
  "SymbolicLink_parse_data B input sig version =
    and_then (sig_version_ok B (83, 76) sig version) (\<lambda>_.
    and_then (nom_alt_bool B [value_of True (nom_tag B [1]), value_of False (nom_tag B [0])] input)
      (\<lambda>(input, cont).
    and_then (nom_many1_rec B (SymbolicLinkRecord_parse B) input) (\<lambda>(input, records).
    Ret (input, \<lparr>should_continue = cont, sl_records = records\<rparr>))))"

definition Unknown_parse_data ::
    "u8 list \<Rightarrow> u8 \<times> u8 \<Rightarrow> u8 \<Rightarrow> Unknown nom_res" where
  "Unknown_parse_data input sig version =
    Ret (input, \<lparr>un_sig = sig, un_version = version, un_data = input\<rparr>)"

text \<open>\<open>map(X::parse, SystemUseEntry::X)\<close>.\<close>

definition susp_entry ::
    "'z build_scheme \<Rightarrow> u8 list option \<Rightarrow> (u8 list \<Rightarrow> u8 \<times> u8 \<Rightarrow> u8 \<Rightarrow> 'a nom_res) \<Rightarrow>
     ('a \<Rightarrow> SystemUseEntry) \<Rightarrow> SystemUseEntry parser" where
  "susp_entry B SIGNATURE parse_data wrap input =
    and_then (susp_parse B SIGNATURE parse_data input) (\<lambda>(input, x). Ret (input, wrap x))"

definition system_use_entry :: "'z susp_build_scheme \<Rightarrow> SystemUseEntry parser" where
  "system_use_entry B =
    nom_alt_sue B
      [susp_entry B (Some [83, 80]) (SuspIndicator_parse_data B) SuspIndicator,
       susp_entry B (Some [67, 69]) (ContinuationArea_parse_data B) ContinuationArea,
       susp_entry B (Some [69, 82]) (ExtensionsReference_parse_data B) ExtensionsReference,
       susp_entry B (Some [84, 70]) (PosixTimestamp_parse_data B) PosixTimestamp,
       susp_entry B (Some [78, 77]) (AlternateName_parse_data B) AlternateName,
       susp_entry B (Some [80, 88]) (PosixAttributes_parse_data B) PosixAttributes,
       susp_entry B (Some [82, 82]) (RockRidge_parse_data B) RockRidge,
       susp_entry B (Some [67, 76]) (ChildLink_parse_data B) ChildLink,
       susp_entry B (Some [82, 69]) (RelocatedDirectory_parse_data B) RelocatedDirectory,
       susp_entry B (Some [83, 76]) (SymbolicLink_parse_data B) SymbolicLink,
       susp_entry B None Unknown_parse_data Unknown]"

definition system_use_entries :: "'z susp_build_scheme \<Rightarrow> SystemUseEntry list parser" where
  "system_use_entries B input = nom_many1_sue B (system_use_entry B) input"

definition std_susp_build :: "bool \<Rightarrow> bool \<Rightarrow> bool \<Rightarrow> susp_build" where
  "std_susp_build asserts big checks =
    enc_build.extend (std_enc_build asserts big checks)
      \<lparr>nom_alt_sue = alt_spec, nom_opt_sues = opt_spec, nom_many1_sue = many1_spec,
       nom_many1_ext = many1_spec, nom_many1_rec = many1_spec,
       take_while_inclusive_nm = take_while_inclusive_spec,
       take_while_inclusive_sl = take_while_inclusive_spec\<rparr>"

interpretation std_susp: linked_susp "std_susp_build asserts big checks"
  by unfold_locales
    (auto simp: std_susp_build_def std_enc_build_def std_build_def build.defs enc_build.defs
      susp_build.defs offset_spec_def utf16be_std intro!: exI [of _ "93599 :: int"])

end
