(* ===== verification/Susp_Facts.thy ===== *)
theory Susp_Facts
  imports Susp
begin

text \<open>
  Facts on the parsers of \<open>susp.rs\<close>: how much of the area an entry takes, and that an area recorded
  entry by entry is read back as the entries it was made from.
\<close>

section \<open>Consumption\<close>

lemma consumes_lift [consumes_intros]:
  "(\<And>x. consumes n (q x)) \<Longrightarrow> consumes n (\<lambda>i. and_then m (\<lambda>x. q x i))"
  unfolding consumes_def by (cases m) auto

lemma consumes_if [consumes_intros]:
  "consumes n p \<Longrightarrow> consumes n q \<Longrightarrow> consumes n (\<lambda>i. if b then p i else q i)"
  by (cases b) auto

lemma no_panic_if [no_panic_intros]:
  "no_panic p \<Longrightarrow> no_panic q \<Longrightarrow> no_panic (\<lambda>i. if b then p i else q i)"
  by (cases b) auto

lemma consumes_option [consumes_intros]:
  "consumes n p \<Longrightarrow> (\<And>x. consumes n (q x)) \<Longrightarrow>
   consumes n (\<lambda>i. case o' of None \<Rightarrow> p i | Some x \<Rightarrow> q x i)"
  by (cases o') auto

context linked begin

lemma consumes_parse_sig:
  assumes "\<And>s. SIGNATURE = Some s \<Longrightarrow> length s = 2"
  shows "consumes 4 (parse_sig B SIGNATURE)"
proof -
  have head: "consumes 2 (\<lambda>i. case SIGNATURE of Some s \<Rightarrow> nom_tag B s i | None \<Rightarrow> nom_take B 2 i)"
  proof (cases SIGNATURE)
    case None
    then show ?thesis by (simp add: consumes_take)
  next
    case (Some s)
    with assms [OF Some] consumes_tag [of s] show ?thesis by simp
  qed
  have tail: "consumes 0 (\<lambda>i. if length = 0 then Throw (NomError Fail)
      else and_then (usize_sub B (unat length) 4) (\<lambda>remainder.
        and_then (nom_take B remainder i) (\<lambda>(i, data). Ret (i, sig, length, version, data))))"
    for length version :: u8 and sig :: "u8 list"
  proof -
    have "consumes (0 :: nat) (\<lambda>i. and_then (take_spec n i) (\<lambda>(i, data). Ret (i, sig, length, version, data)))"
      for n by (rule consumes_mono, (rule consumes_intros)+) simp
    then show ?thesis by (auto intro!: consumes_intros)
  qed
  show ?thesis
    unfolding parse_sig_def le_u8
    by (rule consumes_mono, rule consumes_and_then [OF head],
        (rule consumes_and_then [OF consumes_le_u8])+, rule tail, simp)
qed

lemma consumes_susp_parse:
  assumes "\<And>s. SIGNATURE = Some s \<Longrightarrow> length s = 2"
  shows "consumes 4 (susp_parse B SIGNATURE parse_data)"
proof (rule consumesI)
  fix i r x assume "susp_parse B SIGNATURE parse_data i = Ret (r, x)"
  then obtain y where "parse_sig B SIGNATURE i = Ret (r, y)"
    by (auto simp: susp_parse_def)
  then show "\<exists>k. 4 \<le> k \<and> k \<le> length i \<and> r = drop k i"
    by (meson consumesD consumes_parse_sig [OF assms])
qed

lemma consumes_susp_entry:
  assumes "\<And>s. SIGNATURE = Some s \<Longrightarrow> length s = 2"
  shows "consumes 4 (susp_entry B SIGNATURE parse_data wrap)"
  unfolding susp_entry_def
  by (rule consumes_mono, rule consumes_and_then [OF consumes_susp_parse [OF assms]])
    (auto intro: consumes_Ret)

text \<open>An entry is as long as its length byte says.\<close>

lemma susp_entry_hit:
  assumes "unat len = 4 + length data"
  shows "susp_entry B (Some [a, b]) parse_data wrap (a # b # len # version # data @ r) =
    and_then (parse_data data (a, b) version) (\<lambda>(_, x). Ret (r, wrap x))"
proof -
  have "len \<noteq> 0" using assms by auto
  then show ?thesis
    using assms
    by (cases "parse_data data (a, b) version")
      (auto simp: susp_entry_def susp_parse_def parse_sig_def sig_array_def tag_spec_def take_spec_def)
qed

lemma susp_entry_hit_unknown:
  assumes "unat len = 4 + length data"
  shows "susp_entry B None parse_data wrap (a # b # len # version # data @ r) =
    and_then (parse_data data (a, b) version) (\<lambda>(_, x). Ret (r, wrap x))"
proof -
  have "len \<noteq> 0" using assms by auto
  then show ?thesis
    using assms
    by (cases "parse_data data (a, b) version")
      (auto simp: susp_entry_def susp_parse_def parse_sig_def sig_array_def take_spec_def)
qed

lemma susp_entry_miss:
  "(a, b) \<noteq> (c, d) \<Longrightarrow>
    susp_entry B (Some [a, b]) parse_data wrap (c # d # i) = Throw (NomError Tag)"
  by (auto simp: susp_entry_def susp_parse_def parse_sig_def tag_spec_def)

lemma susp_entry_short:
  "susp_entry B (Some [a, b]) parse_data wrap [] = Throw (NomError Tag)"
  "susp_entry B (Some [a, b]) parse_data wrap [c] = Throw (NomError Tag)"
  "susp_entry B None parse_data wrap [] = Throw (NomError Eof)"
  "susp_entry B None parse_data wrap [c] = Throw (NomError Eof)"
  by (simp_all add: susp_entry_def susp_parse_def parse_sig_def tag_spec_def take_spec_def)

end

context linked_susp begin

lemma consumes_system_use_entry: "consumes 4 (system_use_entry B)"
  unfolding system_use_entry_def alt_sue
  by (rule consumes_alt) (auto intro: consumes_susp_entry)

lemma consumes_system_use_entries: "consumes 4 (system_use_entries B)"
  unfolding system_use_entries_def many1_sue
  by (rule consumes_many1 [OF consumes_system_use_entry])

lemma system_use_entries_Nil:
  "system_use_entry B [] = Throw (NomError Eof)" "system_use_entry B [0] = Throw (NomError Eof)"
  by (simp_all add: system_use_entry_def susp_entry_short)

lemma susp_entry_zeros:
  "susp_entry B None parse_data wrap (replicate k 0) =
    Throw (NomError (if k \<le> 3 then Eof else Fail))"
  "(a, b) \<noteq> (0, 0) \<Longrightarrow> susp_entry B (Some [a, b]) parse_data wrap (replicate k 0) = Throw (NomError Tag)"
proof -
  consider "k = 0" | "k = 1" | "k = 2" | "k = 3" | m where "k = Suc (Suc (Suc (Suc m)))"
    by (metis One_nat_def Suc_1 numeral_3_eq_3 old.nat.exhaust)
  then show "susp_entry B None parse_data wrap (replicate k 0) = Throw (NomError (if k \<le> 3 then Eof else Fail))"
    and "(a, b) \<noteq> (0, 0) \<Longrightarrow> susp_entry B (Some [a, b]) parse_data wrap (replicate k 0) = Throw (NomError Tag)"
    by (cases; auto simp: susp_entry_def susp_parse_def parse_sig_def take_spec_def tag_spec_def numeral_eq_Suc)+
qed

lemma system_use_entry_zeros: "\<exists>e. system_use_entry B (replicate k 0) = Throw (NomError e)"
  by (simp add: system_use_entry_def susp_entry_zeros)

end

section \<open>Recording entries\<close>

text \<open>The bytes of an entry: signature, length, version and data (SUSP 4.1).\<close>

definition susp_bytes :: "u8 \<times> u8 \<Rightarrow> u8 \<Rightarrow> u8 list \<Rightarrow> u8 list" where
  "susp_bytes sig version data =
    [fst sig, snd sig, of_nat (4 + length data), version] @ data"

definition enc_record :: "SymbolicLinkRecord \<Rightarrow> u8 list" where
  "enc_record r =
    [sl_flags r, of_nat (length (as_bytes (sl_component r)))] @ as_bytes (sl_component r)"

text \<open>The identifier, the descriptor and the source of an extension, as the Rock Ridge specifications
  prescribe them.\<close>

primrec extension_texts :: "SuspExtension \<Rightarrow> ustr \<times> ustr \<times> ustr" where
  "extension_texts RockRidge1_09 =
    (lit ''RRIP_1991A'',
     lit ''THE ROCK RIDGE INTERCHANGE PROTOCOL PROVIDES SUPPORT FOR POSIX FILE SYSTEM SEMANTICS'',
     lit ''PLEASE CONTACT DISC PUBLISHER FOR SPECIFICATION SOURCE.  SEE PUBLISHER IDENTIFIER IN PRIMARY VOLUME DESCRIPTOR FOR CONTACT INFORMATION.'')"
| "extension_texts RockRidge1_12 =
    (lit ''IEEE_P1282'',
     lit ''THE IEEE P1282 PROTOCOL PROVIDES SUPPORT FOR POSIX FILE SYSTEM SEMANTICS'',
     lit ''PLEASE CONTACT THE IEEE STANDARDS DEPARTMENT, PISCATAWAY, NJ, USA FOR THE P1282 SPECIFICATION.'')"

definition enc_extension :: "SuspExtension \<Rightarrow> u8 list" where
  "enc_extension x =
    (case extension_texts x of (ident, descriptor, source) \<Rightarrow>
      [of_nat (length (as_bytes ident)), of_nat (length (as_bytes descriptor)),
       of_nat (length (as_bytes source)), 1] @ as_bytes ident @ as_bytes descriptor @ as_bytes source)"

text \<open>A recording date (ECMA-119 9.1.5): its last byte is the offset from Greenwich in quarters of an
  hour, a signed number from -48 to 52.\<close>

definition enc_date :: "OffsetDateTime \<Rightarrow> u8 list" where
  "enc_date t =
    [of_nat (nat (date_year (odt_date t) - 1900)), of_nat (date_month (odt_date t)),
     of_nat (date_day (odt_date t)), of_nat (time_hour (odt_time t)),
     of_nat (time_minute (odt_time t)), of_nat (time_second (odt_time t)),
     word_of_int (odt_offset t div 900)]"

definition date_ok :: "OffsetDateTime \<Rightarrow> bool" where
  "date_ok t \<longleftrightarrow>
    1900 \<le> date_year (odt_date t) \<and> date_year (odt_date t) \<le> 2155
    \<and> 1 \<le> date_month (odt_date t) \<and> date_month (odt_date t) \<le> 12
    \<and> 1 \<le> date_day (odt_date t)
    \<and> date_day (odt_date t) \<le> days_in_month (date_year (odt_date t)) (date_month (odt_date t))
    \<and> time_hour (odt_time t) < 24 \<and> time_minute (odt_time t) < 60 \<and> time_second (odt_time t) < 60
    \<and> time_milli (odt_time t) = 0
    \<and> - 48 * 900 \<le> odt_offset t \<and> odt_offset t \<le> 52 * 900 \<and> 900 dvd odt_offset t"

text \<open>What the program makes of it: an offset west of Greenwich is lost.\<close>

definition read_date :: "OffsetDateTime \<Rightarrow> OffsetDateTime" where
  "read_date t = (if odt_offset t < 0 then t\<lparr>odt_offset := 0\<rparr> else t)"

definition opt_list :: "'a option \<Rightarrow> 'a list" where
  "opt_list x = (case x of None \<Rightarrow> [] | Some y \<Rightarrow> [y])"

definition ts_list :: "PosixTimestamp \<Rightarrow> OffsetDateTime list" where
  "ts_list t = opt_list (ts_creation t) @ opt_list (ts_modify t) @ opt_list (ts_access t)
     @ opt_list (ts_attributes t) @ opt_list (ts_backup t) @ opt_list (ts_expiration t)
     @ opt_list (ts_effective t)"

definition read_timestamp :: "PosixTimestamp \<Rightarrow> PosixTimestamp" where
  "read_timestamp t =
    \<lparr>ts_access = map_option read_date (ts_access t), ts_attributes = map_option read_date (ts_attributes t),
     ts_backup = map_option read_date (ts_backup t), ts_creation = map_option read_date (ts_creation t),
     ts_effective = map_option read_date (ts_effective t), ts_expiration = map_option read_date (ts_expiration t),
     ts_modify = map_option read_date (ts_modify t)\<rparr>"

text \<open>The entry that is read where \<open>e\<close> is recorded: the same, but for the dates west of Greenwich.\<close>

definition read_sue :: "SystemUseEntry \<Rightarrow> SystemUseEntry" where
  "read_sue e = (case e of PosixTimestamp t \<Rightarrow> PosixTimestamp (read_timestamp t) | _ \<Rightarrow> e)"

definition flag7 :: "bool \<Rightarrow> bool \<Rightarrow> bool \<Rightarrow> bool \<Rightarrow> bool \<Rightarrow> bool \<Rightarrow> bool \<Rightarrow> u8" where
  "flag7 a b c d e f g =
    (if a then 1 else 0) OR (if b then 2 else 0) OR (if c then 4 else 0) OR (if d then 8 else 0)
    OR (if e then 16 else 0) OR (if f then 32 else 0) OR (if g then 64 else 0)"

definition ts_flags :: "PosixTimestamp \<Rightarrow> u8" where
  "ts_flags t = flag7 (ts_creation t \<noteq> None) (ts_modify t \<noteq> None) (ts_access t \<noteq> None)
     (ts_attributes t \<noteq> None) (ts_backup t \<noteq> None) (ts_expiration t \<noteq> None)
     (ts_effective t \<noteq> None)"

fun sue_sig :: "SystemUseEntry \<Rightarrow> u8 \<times> u8" where
  "sue_sig (ContinuationArea _) = (67, 69)"
| "sue_sig (ExtensionsReference _) = (69, 82)"
| "sue_sig (SuspIndicator _) = (83, 80)"
| "sue_sig (AlternateName _) = (78, 77)"
| "sue_sig (PosixAttributes _) = (80, 88)"
| "sue_sig (PosixTimestamp _) = (84, 70)"
| "sue_sig (RockRidge _) = (82, 82)"
| "sue_sig (SymbolicLink _) = (83, 76)"
| "sue_sig (ChildLink _) = (67, 76)"
| "sue_sig (RelocatedDirectory _) = (82, 69)"
| "sue_sig (Unknown u) = un_sig u"

fun sue_data :: "SystemUseEntry \<Rightarrow> u8 list" where
  "sue_data (ContinuationArea c) =
    enc_both 4 (block_location c) @ enc_both 4 (ce_offset c) @ enc_both 4 (ce_length c)"
| "sue_data (ExtensionsReference er) = concat (map enc_extension (er_extensions er))"
| "sue_data (SuspIndicator s) = [0xBE, 0xEF, sp_skip s]"
| "sue_data (AlternateName n) = an_flags n # as_bytes (an_name n)"
| "sue_data (PosixAttributes p) =
    enc_both 4 (px_mode p) @ enc_both 4 (px_links p) @ enc_both 4 (px_uid p)
    @ enc_both 4 (px_gid p) @ (case px_inode p of None \<Rightarrow> [] | Some n \<Rightarrow> enc_both 4 n)"
| "sue_data (PosixTimestamp t) = ts_flags t # concat (map enc_date (ts_list t))"
| "sue_data (RockRidge r) = [rr_flags r]"
| "sue_data (SymbolicLink l) =
    (if should_continue l then 1 else 0) # concat (map enc_record (sl_records l))"
| "sue_data (ChildLink l) = enc_both 4 l"
| "sue_data (RelocatedDirectory _) = []"
| "sue_data (Unknown u) = un_data u"

fun sue_version :: "SystemUseEntry \<Rightarrow> u8" where
  "sue_version (Unknown u) = un_version u"
| "sue_version _ = 1"

definition enc_sue :: "SystemUseEntry \<Rightarrow> u8 list" where
  "enc_sue e = susp_bytes (sue_sig e) (sue_version e) (sue_data e)"

definition known_sigs :: "(u8 \<times> u8) list" where
  "known_sigs = [(67, 69), (69, 82), (83, 80), (78, 77), (80, 88), (84, 70), (82, 82), (83, 76),
     (67, 76), (82, 69)]"

text \<open>The entries that can be recorded so: flags the format defines, dates and names in range,
  and data that fits the length byte.\<close>

fun sue_fields_ok :: "SystemUseEntry \<Rightarrow> bool" where
  "sue_fields_ok (ExtensionsReference er) \<longleftrightarrow> er_extensions er \<noteq> []"
| "sue_fields_ok (AlternateName n) \<longleftrightarrow>
    an_flags n AND AlternateNameFlags_all = an_flags n \<and> list_all is_scalar (an_name n)
    \<and> trim_matches 0 (an_name n) = an_name n"
| "sue_fields_ok (PosixAttributes p) \<longleftrightarrow> px_mode p AND PosixFileMode_all = px_mode p"
| "sue_fields_ok (PosixTimestamp t) \<longleftrightarrow> ts_list t \<noteq> [] \<and> list_all date_ok (ts_list t)"
| "sue_fields_ok (SymbolicLink l) \<longleftrightarrow>
    sl_records l \<noteq> [] \<and>
    list_all (\<lambda>r. sl_flags r AND SymbolicLinkRecordFlags_all = sl_flags r
      \<and> list_all is_scalar (sl_component r)) (sl_records l)"
| "sue_fields_ok (RelocatedDirectory b) \<longleftrightarrow> b"
| "sue_fields_ok (Unknown u) \<longleftrightarrow> un_sig u \<notin> set known_sigs"
| "sue_fields_ok _ \<longleftrightarrow> True"

definition sue_ok :: "SystemUseEntry \<Rightarrow> bool" where
  "sue_ok e \<longleftrightarrow> sue_fields_ok e \<and> length (sue_data e) \<le> 251"

lemma unat_of_nat_u8: "n < 256 \<Longrightarrow> unat (of_nat n :: u8) = n"
  by (simp add: unat_of_nat)

lemma enc_sue_eq:
  "enc_sue e @ r = fst (sue_sig e) # snd (sue_sig e) # of_nat (4 + length (sue_data e))
     # sue_version e # sue_data e @ r"
  by (simp add: enc_sue_def susp_bytes_def)

lemma length_enc_sue: "length (enc_sue e) = 4 + length (sue_data e)"
  by (simp add: enc_sue_def susp_bytes_def)

lemma and_255 [simp]: "(x :: u8) AND 255 = x"
proof -
  have "(255 :: u8) = -1" by simp
  then show ?thesis by (simp only: and.right_neutral)
qed

text \<open>Repetition over a recorded list of elements.\<close>

lemma more_spec_concat:
  assumes step: "\<And>x r. x \<in> set xs \<Longrightarrow> p (enc x @ r) = Ret (r, f x)"
    and ne: "\<And>x. x \<in> set xs \<Longrightarrow> enc x \<noteq> []"
    and stop: "p r = Throw (NomError k)"
  shows "more_spec p (concat (map enc xs) @ r) = Ret (r, map f xs)"
  using step ne
proof (induction xs)
  case Nil
  then show ?case using stop by (simp add: more_spec.simps [of p r])
next
  case (Cons x xs)
  have "p (enc x @ concat (map enc xs) @ r) = Ret (concat (map enc xs) @ r, f x)"
    by (rule Cons.prems(1)) simp
  moreover have "more_spec p (concat (map enc xs) @ r) = Ret (r, map f xs)"
    using Cons by simp
  moreover have "enc x \<noteq> []" using Cons.prems(2) by simp
  ultimately show ?case
    by (simp add: more_spec.simps [of p "enc x @ concat (map enc xs) @ r"])
qed

lemma many1_spec_concat:
  assumes "xs \<noteq> []"
    and step: "\<And>x r. x \<in> set xs \<Longrightarrow> p (enc x @ r) = Ret (r, f x)"
    and ne: "\<And>x. x \<in> set xs \<Longrightarrow> enc x \<noteq> []"
    and stop: "p r = Throw (NomError k)"
  shows "many1_spec p (concat (map enc xs) @ r) = Ret (r, map f xs)"
proof -
  obtain x ys where xs: "xs = x # ys" using assms(1) by (cases xs) auto
  have "more_spec p (concat (map enc ys) @ r) = Ret (r, map f ys)"
    using step ne stop unfolding xs by (intro more_spec_concat) auto
  moreover have "p (enc x @ concat (map enc ys) @ r) = Ret (concat (map enc ys) @ r, f x)"
    using step unfolding xs by simp
  ultimately show ?thesis by (simp add: many1_spec_def xs)
qed

text \<open>An element that is cut short ends the repetition with \<open>Incomplete\<close>.\<close>

lemma many1_spec_incomplete:
  assumes step: "\<And>x r. x \<in> set xs \<Longrightarrow> p (enc x @ r) = Ret (r, f x)"
    and ne: "\<And>x. x \<in> set xs \<Longrightarrow> enc x \<noteq> []"
    and stop: "p r = Throw NomIncomplete"
  shows "many1_spec p (concat (map enc xs) @ r) = Throw NomIncomplete"
proof -
  have more: "more_spec p (concat (map enc xs) @ r) = Throw NomIncomplete" using step ne
  proof (induction xs)
    case Nil
    then show ?case using stop by (simp add: more_spec.simps [of p r])
  next
    case (Cons x xs)
    have "p (enc x @ concat (map enc xs) @ r) = Ret (concat (map enc xs) @ r, f x)"
      by (rule Cons.prems(1)) simp
    moreover have "more_spec p (concat (map enc xs) @ r) = Throw NomIncomplete" using Cons by simp
    moreover have "enc x \<noteq> []" using Cons.prems(2) by simp
    ultimately show ?case by (simp add: more_spec.simps [of p "enc x @ concat (map enc xs) @ r"])
  qed
  show ?thesis
  proof (cases xs)
    case (Cons x ys)
    have "p (enc x @ concat (map enc ys) @ r) = Ret (concat (map enc ys) @ r, f x)"
      by (rule step) (simp add: Cons)
    moreover have "enc x \<noteq> []" using ne Cons by simp
    ultimately have "more_spec p (concat (map enc ys) @ r) = Throw NomIncomplete"
      using more by (subst (asm) more_spec.simps) (auto simp: Cons and_then_eq_Throw)
    with \<open>p (enc x @ _) = _\<close> show ?thesis by (simp add: many1_spec_def Cons)
  qed (simp add: many1_spec_def stop)
qed

lemmas many1_spec_concat_id = many1_spec_concat [where f = "\<lambda>x. x", unfolded list.map_ident]

lemma flag7_contains:
  "flag7 a b c d e f g AND 1 = 1 \<longleftrightarrow> a" "flag7 a b c d e f g AND 2 = 2 \<longleftrightarrow> b"
  "flag7 a b c d e f g AND 4 = 4 \<longleftrightarrow> c" "flag7 a b c d e f g AND 8 = 8 \<longleftrightarrow> d"
  "flag7 a b c d e f g AND 16 = 16 \<longleftrightarrow> e" "flag7 a b c d e f g AND 32 = 32 \<longleftrightarrow> f"
  "flag7 a b c d e f g AND 64 = 64 \<longleftrightarrow> g"
  unfolding flag7_def by (cases a; cases b; cases c; cases d; cases e; cases f; cases g; simp)+

lemma next_if_opt_list [simp]:
  "next_if (\<exists>y. x = Some y) (map f (opt_list x) @ it) = (map_option f x, it)"
  "next_if (\<exists>y. x = Some y) (map f (opt_list x)) = (map_option f x, [])"
  by (cases x; simp add: next_if_def opt_list_def)+

lemma flags_all_eq:
  "PosixTimestampFlags_all = 255" "RockRidgeFlags_all = 255"
  by (simp_all add: PosixTimestampFlags_all_def RockRidgeFlags_all_def)

section \<open>Each entry is read back\<close>

lemma days_in_month_bound: "days_in_month y m \<le> 31"
  by (simp add: days_in_month_def)

context linked begin

lemma decode_offset_quarters:
  assumes "- 48 \<le> k" and "k \<le> 52"
  shows "decode_offset B (word_of_int k) = (if k < 0 then 0 else 900 * k)"
proof -
  obtain bound where b: "86399 \<le> bound" "bound \<le> 93599"
    "from_whole_seconds B = (\<lambda>s. if \<bar>s\<bar> \<le> bound then Some s else None)"
    using from_whole_seconds by (auto simp: offset_spec_def)
  show ?thesis
  proof (cases "k < 0")
    case True
    then have "uint (word_of_int k :: u8) = k + 256"
      using assms by (simp add: uint_word_of_int) presburger
    then show ?thesis using True assms b by (simp add: decode_offset_def)
  next
    case False
    then have "uint (word_of_int k :: u8) = k" using assms by (simp add: uint_word_of_int)
    then show ?thesis using False assms b by (simp add: decode_offset_def)
  qed
qed

lemma date_time_enc:
  assumes "date_ok t"
  shows "date_time B (enc_date t @ r) = Ret (r, read_date t)"
proof -
  obtain y m d h mi s z where t: "t = \<lparr>odt_date = \<lparr>date_year = y, date_month = m, date_day = d\<rparr>,
      odt_time = \<lparr>time_hour = h, time_minute = mi, time_second = s, time_milli = 0\<rparr>,
      odt_offset = z\<rparr>"
    using assms unfolding date_ok_def
    by (cases t; cases "odt_date t"; cases "odt_time t") auto
  have ok: "1900 \<le> y" "y \<le> 2155" "1 \<le> m" "m \<le> 12" "1 \<le> d" "d \<le> days_in_month y m" "h < 24"
    "mi < 60" "s < 60" "- 43200 \<le> z" "z \<le> 46800" "900 dvd z"
    using assms by (auto simp: date_ok_def t)
  have d31: "d \<le> 31" using ok(6) days_in_month_bound [of y m] by linarith
  obtain n where n: "y = 1900 + int n" "n < 256"
    using ok(1,2) by (intro that [of "nat (y - 1900)"]) auto
  obtain k where k: "z = 900 * k" "- 48 \<le> k" "k \<le> 52" using ok(10-12) by (auto elim!: dvdE)
  have "decode_date (of_nat n) (of_nat m) (of_nat d) = odt_date t"
    using ok d31 n by (simp add: decode_date_def calendar_spec_def t unat_of_nat_u8)
  moreover have "decode_time (of_nat h) (of_nat mi) (of_nat s) = odt_time t"
    using ok by (simp add: decode_time_def hms_spec_def t unat_of_nat_u8)
  moreover have "decode_offset B (word_of_int k) = (if k < 0 then 0 else z)"
    using decode_offset_quarters [OF k(2,3)] k(1) by simp
  ultimately show ?thesis using n k by (simp add: enc_date_def date_time_Cons t read_date_def)
qed

lemma date_time_Nil: "date_time B [] = Throw (NomError Eof)"
  by (simp add: date_time_def)

end

lemma sig_version_ok_simps [simp]: "sig_version_ok B sig sig 1 = Ret ()"
  by (simp add: sig_version_ok_def)

context linked begin

lemma AlternateName_enc:
  assumes "sue_fields_ok (AlternateName n)"
  shows "\<exists>r. AlternateName_parse_data B (sue_data (AlternateName n)) (78, 77) 1 = Ret (r, n)"
  using assms by (simp add: AlternateName_parse_data_def from_utf8_as_bytes)

lemma both_endian32_enc_all: "both_endian32 B (enc_both 4 w) = Ret ([], w)"
  using both_endian32_enc [of w "[]"] by simp

lemma ContinuationArea_enc:
  "\<exists>r. ContinuationArea_parse_data B (sue_data (ContinuationArea c)) (67, 69) 1 = Ret (r, c)"
  by (simp add: ContinuationArea_parse_data_def both_endian32_enc both_endian32_enc_all)

lemma PosixAttributes_enc:
  assumes "sue_fields_ok (PosixAttributes p)"
  shows "\<exists>r. PosixAttributes_parse_data B (sue_data (PosixAttributes p)) (80, 88) 1 = Ret (r, p)"
proof (cases "px_inode p")
  case None
  have "opt_spec (both_endian32 B) [] = Ret ([], None)"
    by (simp add: opt_spec_def both_endian32_eq)
  with None assms show ?thesis
    by (simp add: PosixAttributes_parse_data_def both_endian32_enc both_endian32_enc_all)
next
  case (Some n)
  have "opt_spec (both_endian32 B) (enc_both 4 n) = Ret ([], Some n)"
    by (simp add: opt_spec_def both_endian32_enc_all)
  with Some assms show ?thesis
    by (simp add: PosixAttributes_parse_data_def both_endian32_enc)
qed

lemma PosixTimestamp_enc:
  assumes "sue_fields_ok (PosixTimestamp t)"
  shows "\<exists>r. PosixTimestamp_parse_data B (sue_data (PosixTimestamp t)) (84, 70) 1 = Ret (r, read_timestamp t)"
proof -
  have "many1_spec (date_time B) (concat (map enc_date (ts_list t)) @ []) = Ret ([], map read_date (ts_list t))"
    using assms
    by (intro many1_spec_concat [where k = Eof] date_time_enc)
      (auto simp: list_all_iff enc_date_def date_time_Nil)
  then show ?thesis
    by (simp add: PosixTimestamp_parse_data_def flags_all_eq ts_flags_def flag7_contains)
      (simp add: ts_list_def read_timestamp_def)
qed

lemma SymbolicLinkRecord_enc:
  assumes "sl_flags x AND SymbolicLinkRecordFlags_all = sl_flags x"
    and "list_all is_scalar (sl_component x)" and "length (as_bytes (sl_component x)) < 256"
  shows "SymbolicLinkRecord_parse B (enc_record x @ r) = Ret (r, x)"
  using assms
  by (simp add: SymbolicLinkRecord_parse_def enc_record_def length_data_spec_def from_utf8_as_bytes
      unat_of_nat_u8)

lemma take_str_ascii:
  assumes "list_all (\<lambda>c. c < 0x80) s" and "length s = n"
  shows "take_str B n (map of_nat s @ r) = Ret (r, trim_end s)"
  using from_utf8_ascii_bytes [OF assms(1)] assms
  by (simp add: take_str_def take_spec_def as_bytes_ascii)

lemma susp_extension_enc: "susp_extension B (enc_extension x @ r) = Ret (r, x)"
proof -
  obtain ident d s where texts: "extension_texts x = (ident, d, s)" by (cases "extension_texts x")
  have ascii: "list_all (\<lambda>c. c < 0x80) ident" "list_all (\<lambda>c. c < 0x80) d" "list_all (\<lambda>c. c < 0x80) s"
    using texts by (cases x; auto simp: lit_def)+
  have len: "length ident < 256" "length d < 256" "length s < 256"
    using texts by (cases x; auto simp: lit_def)+
  have which: "x = RockRidge1_09 \<and> ident = lit ''RRIP_1991A'' \<or> x = RockRidge1_12 \<and> ident = lit ''IEEE_P1282''"
    using texts by (cases x) auto
  then have "trim_end ident = ident" by (auto simp: lit_def trim_end_def is_whitespace_def)
  then have "susp_extension B (enc_extension x @ r) =
      (if ident = lit ''RRIP_1991A'' then Ret (r, RockRidge1_09)
       else if ident = lit ''IEEE_P1282'' then Ret (r, RockRidge1_12)
       else if ident = lit ''IEEE_1282'' then Ret (r, RockRidge1_12)
       else Panic)"
    using texts
    by (simp add: susp_extension_def enc_extension_def as_bytes_ascii [OF ascii(1)] as_bytes_ascii [OF ascii(2)]
        as_bytes_ascii [OF ascii(3)] unat_of_nat_u8 len take_str_ascii [OF ascii(1)] take_str_ascii [OF ascii(2)]
        take_str_ascii [OF ascii(3)] del: and_then_eq_Ret)
  moreover have "lit ''IEEE_P1282'' \<noteq> lit ''RRIP_1991A''" by (simp add: lit_def)
  ultimately show ?thesis using which by auto
qed

end

context linked_susp begin

lemma ExtensionsReference_enc:
  assumes "sue_fields_ok (ExtensionsReference e)"
  shows "\<exists>r. ExtensionsReference_parse_data B (sue_data (ExtensionsReference e)) (69, 82) 1 = Ret (r, e)"
proof -
  have "many1_spec (susp_extension B) (concat (map enc_extension (er_extensions e)) @ [])
      = Ret ([], er_extensions e)"
    using assms
    by (intro many1_spec_concat_id [where k = Eof] susp_extension_enc)
      (auto simp: enc_extension_def susp_extension_def split: prod.splits)
  then show ?thesis by (simp add: ExtensionsReference_parse_data_def)
qed

lemma SymbolicLink_enc:
  assumes "sue_ok (SymbolicLink l)"
  shows "\<exists>r. SymbolicLink_parse_data B (sue_data (SymbolicLink l)) (83, 76) 1 = Ret (r, l)"
proof -
  have fits: "length (as_bytes (sl_component x)) < 256" if "x \<in> set (sl_records l)" for x
  proof -
    have "length (enc_record x) \<le> length (concat (map enc_record (sl_records l)))"
      using that by (metis length_concat elem_le_sum_list image_eqI length_map
        list.set_map in_set_conv_nth nth_map)
    then show ?thesis using assms by (simp add: sue_ok_def enc_record_def)
  qed
  have "many1_spec (SymbolicLinkRecord_parse B) (concat (map enc_record (sl_records l)) @ [])
      = Ret ([], sl_records l)"
    using assms fits
    by (intro many1_spec_concat_id [where k = Eof] SymbolicLinkRecord_enc)
      (auto simp: sue_ok_def list_all_iff enc_record_def SymbolicLinkRecord_parse_def)
  then show ?thesis
    by (cases "should_continue l") (simp_all add: SymbolicLink_parse_data_def value_of_def tag_spec_def)
qed

text \<open>Which parser reads an entry: the one of its signature, if it accepts the data.\<close>

lemma system_use_entry_hit:
  assumes len: "unat len = 4 + length data"
  shows
    "SuspIndicator_parse_data B data (83, 80) v = Ret (q, x0) \<Longrightarrow>
      system_use_entry B (83 # 80 # len # v # data @ r) = Ret (r, SuspIndicator x0)"
    "ContinuationArea_parse_data B data (67, 69) v = Ret (q, x1) \<Longrightarrow>
      system_use_entry B (67 # 69 # len # v # data @ r) = Ret (r, ContinuationArea x1)"
    "ExtensionsReference_parse_data B data (69, 82) v = Ret (q, x2) \<Longrightarrow>
      system_use_entry B (69 # 82 # len # v # data @ r) = Ret (r, ExtensionsReference x2)"
    "PosixTimestamp_parse_data B data (84, 70) v = Ret (q, x3) \<Longrightarrow>
      system_use_entry B (84 # 70 # len # v # data @ r) = Ret (r, PosixTimestamp x3)"
    "AlternateName_parse_data B data (78, 77) v = Ret (q, x4) \<Longrightarrow>
      system_use_entry B (78 # 77 # len # v # data @ r) = Ret (r, AlternateName x4)"
    "PosixAttributes_parse_data B data (80, 88) v = Ret (q, x5) \<Longrightarrow>
      system_use_entry B (80 # 88 # len # v # data @ r) = Ret (r, PosixAttributes x5)"
    "RockRidge_parse_data B data (82, 82) v = Ret (q, x6) \<Longrightarrow>
      system_use_entry B (82 # 82 # len # v # data @ r) = Ret (r, RockRidge x6)"
    "ChildLink_parse_data B data (67, 76) v = Ret (q, x7) \<Longrightarrow>
      system_use_entry B (67 # 76 # len # v # data @ r) = Ret (r, ChildLink x7)"
    "RelocatedDirectory_parse_data B data (82, 69) v = Ret (q, x8) \<Longrightarrow>
      system_use_entry B (82 # 69 # len # v # data @ r) = Ret (r, RelocatedDirectory x8)"
    "SymbolicLink_parse_data B data (83, 76) v = Ret (q, x9) \<Longrightarrow>
      system_use_entry B (83 # 76 # len # v # data @ r) = Ret (r, SymbolicLink x9)"
  by (simp_all add: system_use_entry_def susp_entry_hit [OF len] susp_entry_miss)

lemma system_use_entry_unknown:
  assumes len: "unat len = 4 + length data" and "(a, b) \<notin> set known_sigs"
  shows "system_use_entry B (a # b # len # v # data @ r) =
    Ret (r, Unknown \<lparr>un_sig = (a, b), un_version = v, un_data = data\<rparr>)"
  using assms(2)
  by (auto simp: system_use_entry_def susp_entry_hit_unknown [OF len] susp_entry_miss known_sigs_def
      Unknown_parse_data_def)

lemma system_use_entry_enc:
  assumes ok: "sue_ok e"
  shows "system_use_entry B (enc_sue e @ r) = Ret (r, read_sue e)"
proof -
  have len: "unat (of_nat (4 + length (sue_data e)) :: u8) = 4 + length (sue_data e)"
    using ok unfolding sue_ok_def by (intro unat_of_nat_u8) simp
  have fields: "sue_fields_ok e" using ok by (simp add: sue_ok_def)
  note hit = system_use_entry_hit [OF len] and read_sue_def [simp]
  show ?thesis
  proof (cases e)
    case (Unknown u)
    then show ?thesis
      using fields system_use_entry_unknown [OF len, of "fst (un_sig u)" "snd (un_sig u)"]
      unfolding enc_sue_eq by simp
  next
    case (ExtensionsReference x)
    then show ?thesis
      using ExtensionsReference_enc [of x] fields hit(3) unfolding enc_sue_eq by auto
  next
    case (PosixTimestamp x)
    then show ?thesis
      using PosixTimestamp_enc [of x] fields hit(4) unfolding enc_sue_eq by auto
  next
    case (AlternateName x)
    then show ?thesis
      using AlternateName_enc [of x] fields hit(5) unfolding enc_sue_eq by auto
  next
    case (PosixAttributes x)
    then show ?thesis
      using PosixAttributes_enc [of x] fields hit(6) unfolding enc_sue_eq by auto
  next
    case (ContinuationArea x)
    then show ?thesis
      using ContinuationArea_enc [of x] hit(2) unfolding enc_sue_eq by auto
  next
    case (SymbolicLink x)
    then show ?thesis
      using SymbolicLink_enc [of x] ok hit(10) unfolding enc_sue_eq by auto
  next
    case (SuspIndicator x)
    moreover have "\<exists>q. SuspIndicator_parse_data B (sue_data e) (83, 80) 1 = Ret (q, x)"
      using SuspIndicator by (simp add: SuspIndicator_parse_data_def tag_spec_def)
    ultimately show ?thesis using hit(1) unfolding enc_sue_eq by auto
  next
    case (RockRidge x)
    moreover have "\<exists>q. RockRidge_parse_data B (sue_data e) (82, 82) 1 = Ret (q, x)"
      using RockRidge by (simp add: RockRidge_parse_data_def flags_all_eq)
    ultimately show ?thesis using hit(7) unfolding enc_sue_eq by auto
  next
    case (ChildLink x)
    moreover have "\<exists>q. ChildLink_parse_data B (sue_data e) (67, 76) 1 = Ret (q, x)"
      using ChildLink by (simp add: ChildLink_parse_data_def both_endian32_enc_all)
    ultimately show ?thesis using hit(8) unfolding enc_sue_eq by auto
  next
    case (RelocatedDirectory x)
    moreover have "\<exists>q. RelocatedDirectory_parse_data B (sue_data e) (82, 69) 1 = Ret (q, x)"
      using RelocatedDirectory fields by (simp add: RelocatedDirectory_parse_data_def)
    ultimately show ?thesis using hit(9) unfolding enc_sue_eq by auto
  qed
qed

text \<open>An area of recorded entries, followed by unused bytes, which are zero.\<close>

lemma system_use_entries_enc:
  assumes "es \<noteq> []" and "list_all sue_ok es"
  shows "system_use_entries B (concat (map enc_sue es) @ replicate k 0) = Ret (replicate k 0, map read_sue es)"
proof -
  obtain e where "system_use_entry B (replicate k 0) = Throw (NomError e)"
    using system_use_entry_zeros by blast
  then show ?thesis
    unfolding system_use_entries_def many1_sue
    using assms
    by (intro many1_spec_concat [where k = e] system_use_entry_enc)
      (auto simp: list_all_iff enc_sue_def susp_bytes_def)
qed

lemma area_enc:
  assumes "list_all sue_ok es"
  shows "\<exists>q. opt_spec (system_use_entries B) (concat (map enc_sue es) @ replicate k 0) =
    Ret (q, if es = [] then None else Some (map read_sue es))"
proof (cases "es = []")
  case True
  then show ?thesis using system_use_entry_zeros [of k]
    by (auto simp: opt_spec_def system_use_entries_def many1_spec_def)
next
  case False
  with system_use_entries_enc [OF _ assms] show ?thesis by (simp add: opt_spec_def)
qed

text \<open>A link whose last component is cut short by the end of its entry.\<close>

lemma SymbolicLink_short:
  assumes "c \<in> {0, 1}" and "length name < unat n"
    and recs: "list_all (\<lambda>r. sl_flags r AND SymbolicLinkRecordFlags_all = sl_flags r
      \<and> list_all is_scalar (sl_component r) \<and> length (as_bytes (sl_component r)) < 256) recs"
  shows "SymbolicLink_parse_data B (c # concat (map enc_record recs) @ f # n # name) (83, 76) 1 = Throw NomIncomplete"
proof -
  have "SymbolicLinkRecord_parse B (f # n # name) = Throw NomIncomplete"
    using assms(2) by (simp add: SymbolicLinkRecord_parse_def length_data_spec_def)
  then have "many1_spec (SymbolicLinkRecord_parse B) (concat (map enc_record recs) @ f # n # name) = Throw NomIncomplete"
    using recs
    by (intro many1_spec_incomplete [where f = "\<lambda>x. x"] SymbolicLinkRecord_enc) (auto simp: list_all_iff enc_record_def)
  then show ?thesis
    using assms(1) by (auto simp: SymbolicLink_parse_data_def value_of_def tag_spec_def)
qed

lemma system_use_entries_short_link:
  assumes "list_all sue_ok es" and "SymbolicLink_parse_data B data (83, 76) 1 = Throw NomIncomplete"
    and len: "length data \<le> 251"
  shows "system_use_entries B (concat (map enc_sue es) @ susp_bytes (83, 76) 1 data @ r) = Throw NomIncomplete"
proof -
  have "unat (of_nat (4 + length data) :: u8) = 4 + length data" using len by (intro unat_of_nat_u8) simp
  then have "system_use_entry B (susp_bytes (83, 76) 1 data @ r) = Throw NomIncomplete"
    using assms(2) by (simp add: system_use_entry_def susp_bytes_def susp_entry_hit susp_entry_miss)
  then show ?thesis
    unfolding system_use_entries_def many1_sue
    using assms(1)
    by (intro many1_spec_incomplete [where f = read_sue] system_use_entry_enc)
      (auto simp: list_all_iff enc_sue_def susp_bytes_def)
qed

end

end
