(* ===== verification/Dir_Record.thy ===== *)
theory Dir_Record
  imports Susp_Facts
begin

text \<open>
  \<open>cdfs/src/parse/directory_entry.rs\<close>: the directory record of ECMA-119 9.1, with its identifier and
  its system use area. The facts: a record takes exactly as many bytes as its length byte says and
  at least 34, whatever the input, and a recorded entry is read back.
\<close>

definition FileFlags_all :: u8 where
  "FileFlags_all = 1 OR 2 OR 4 OR 8 OR 16 OR 128"

abbreviation (input) FileFlags_DIRECTORY :: u8 where "FileFlags_DIRECTORY \<equiv> 2"
abbreviation (input) FileFlags_ASSOCIATED_FILE :: u8 where "FileFlags_ASSOCIATED_FILE \<equiv> 4"

record DirectoryEntryHeader =
  de_length :: u8
  extended_attribute_record_length :: u8
  extent_loc :: u32
  extent_length :: u32
  de_time :: OffsetDateTime
  file_flags :: u8
  file_unit_size :: u8
  interleave_gap_size :: u8
  de_volume_sequence_number :: u16
  de_character_encoding :: CharacterEncoding

type_synonym dir_record = "DirectoryEntryHeader \<times> ustr \<times> SystemUseEntry list option"

text \<open>The closure that decodes the identifier: the one byte names \<open>0\<close> and \<open>1\<close> are kept.\<close>

definition identifier_string :: "'z build_scheme \<Rightarrow> CharacterEncoding \<Rightarrow> ustr parser" where
  "identifier_string B enc bytes =
    (if length bytes = 1 then
       nom_alt_str B [value_of [0] (nom_tag B [0]), value_of [1] (nom_tag B [1]),
                      decode_string B enc] bytes
     else decode_string B enc bytes)"

definition directory_entry :: "'z susp_build_scheme \<Rightarrow> u8 list \<Rightarrow> CharacterEncoding \<Rightarrow> dir_record nom_res" where
  "directory_entry B i enc =
    (let orig_len = length i in
    and_then (nom_le_u8 B i) (\<lambda>(i, len).
    and_then (nom_le_u8 B i) (\<lambda>(i, ear_len).
    and_then (both_endian32 B i) (\<lambda>(i, loc).
    and_then (both_endian32 B i) (\<lambda>(i, ext_len).
    and_then (date_time B i) (\<lambda>(i, time).
    and_then (nom_le_u8 B i) (\<lambda>(i, flags).
    let flags = bits8_from_bits_truncate B FileFlags_all flags in
    and_then (nom_le_u8 B i) (\<lambda>(i, unit_size).
    and_then (nom_le_u8 B i) (\<lambda>(i, gap_size).
    and_then (both_endian16 B i) (\<lambda>(i, seq).
    and_then (assertion B (gap_size = 0)) (\<lambda>_.
    and_then (assertion B (unit_size = 0)) (\<lambda>_.
    let identifier_len = length i in
    and_then (and_then (nom_length_data B (nom_le_u8 B) i) (\<lambda>(i, bytes).
              and_then (identifier_string B enc bytes) (\<lambda>(_, s). Ret (i, s)))) (\<lambda>(i, identifier).
    and_then (usize_sub B identifier_len (length i)) (\<lambda>identifier_len.
    and_then (if identifier_len mod 2 = 0 then Ret i
              else and_then (nom_take B 1 i) (\<lambda>(i, _). Ret i)) (\<lambda>i.
    and_then (usize_sub B orig_len (length i)) (\<lambda>offset.
    and_then (usize_sub B (unat len) offset) (\<lambda>remainder.
    and_then (and_then (nom_take B remainder i) (\<lambda>(i, area).
              and_then (nom_opt_sues B (system_use_entries B) area) (\<lambda>(_, susp).
              Ret (i, susp)))) (\<lambda>(i, susp).
    Ret (i, \<lparr>de_length = len, extended_attribute_record_length = ear_len, extent_loc = loc,
             extent_length = ext_len, de_time = time, file_flags = flags,
             file_unit_size = unit_size, interleave_gap_size = gap_size,
             de_volume_sequence_number = seq, de_character_encoding = enc\<rparr>,
         identifier, susp)))))))))))))))))))"

definition DirectoryEntryHeader_parse ::
    "'z susp_build_scheme \<Rightarrow> u8 list \<Rightarrow> CharacterEncoding \<Rightarrow> (ISOError, dir_record) exec" where
  "DirectoryEntryHeader_parse B input enc =
    and_then (try_nom (directory_entry B input enc)) (\<lambda>(_, record). Ret record)"

section \<open>How long a record is\<close>

text \<open>The record in two parts: the fields of fixed size, then the identifier, the padding and the
  system use area.\<close>

definition record_fixed ::
    "'z build_scheme \<Rightarrow> CharacterEncoding \<Rightarrow> DirectoryEntryHeader parser" where
  "record_fixed B enc i =
    and_then (nom_le_u8 B i) (\<lambda>(i, len).
    and_then (nom_le_u8 B i) (\<lambda>(i, ear_len).
    and_then (both_endian32 B i) (\<lambda>(i, loc).
    and_then (both_endian32 B i) (\<lambda>(i, ext_len).
    and_then (date_time B i) (\<lambda>(i, time).
    and_then (nom_le_u8 B i) (\<lambda>(i, flags).
    and_then (nom_le_u8 B i) (\<lambda>(i, unit_size).
    and_then (nom_le_u8 B i) (\<lambda>(i, gap_size).
    and_then (both_endian16 B i) (\<lambda>(i, seq).
    and_then (assertion B (gap_size = 0)) (\<lambda>_.
    and_then (assertion B (unit_size = 0)) (\<lambda>_.
    Ret (i, \<lparr>de_length = len, extended_attribute_record_length = ear_len, extent_loc = loc,
             extent_length = ext_len, de_time = time,
             file_flags = bits8_from_bits_truncate B FileFlags_all flags,
             file_unit_size = unit_size, interleave_gap_size = gap_size,
             de_volume_sequence_number = seq, de_character_encoding = enc\<rparr>))))))))))))"

definition record_tail ::
    "'z susp_build_scheme \<Rightarrow> usize \<Rightarrow> DirectoryEntryHeader \<Rightarrow> dir_record parser" where
  "record_tail B orig_len h j =
    and_then (nom_length_data B (nom_le_u8 B) j) (\<lambda>(i, bytes).
    and_then (identifier_string B (de_character_encoding h) bytes) (\<lambda>(_, identifier).
    and_then (usize_sub B (length j) (length i)) (\<lambda>identifier_len.
    and_then (if identifier_len mod 2 = 0 then Ret i
              else and_then (nom_take B 1 i) (\<lambda>(i, _). Ret i)) (\<lambda>i.
    and_then (usize_sub B orig_len (length i)) (\<lambda>offset.
    and_then (usize_sub B (unat (de_length h)) offset) (\<lambda>remainder.
    and_then (nom_take B remainder i) (\<lambda>(i, area).
    and_then (nom_opt_sues B (system_use_entries B) area) (\<lambda>(_, susp).
    Ret (i, h, identifier, susp)))))))))"

lemma directory_entry_split:
  "directory_entry B i enc =
    and_then (record_fixed B enc i) (\<lambda>(j, h). record_tail B (length i) h j)"
  by (simp add: directory_entry_def record_fixed_def record_tail_def and_then_assoc Let_def
      case_prod_unfold cong: if_cong)

context linked_susp begin

lemma le_u8_spec_drop:
  "le_u8_spec i = Ret (r, b) \<longleftrightarrow> 1 \<le> length i \<and> r = drop 1 i \<and> b = hd i"
  by (cases i) auto

lemma length_data_eq_Ret:
  "length_data_spec le_u8_spec i = Ret (r, bytes) \<Longrightarrow>
    \<exists>n k. i = n # k \<and> unat n \<le> length k \<and> r = drop (unat n) k \<and> bytes = take (unat n) k"
  by (auto simp: length_data_spec_def split: if_splits)

lemma record_fixed_RetD:
  "record_fixed B enc i = Ret (j, h) \<Longrightarrow>
    32 \<le> length i \<and> j = drop 32 i \<and> de_length h = hd i \<and> de_character_encoding h = enc"
  by (clarsimp simp: record_fixed_def le_u8_spec_drop simp del: le_u8_spec_eq_Ret
      dest!: both_endian_eq_Ret date_time_eq_Ret) linarith

text \<open>The remainder: a wrapped subtraction asks for more bytes than any slice has.\<close>

lemma usize_sub_fits:
  assumes "usize_sub B a b = Ret n" and "n < 2 ^ 63" and "b < 2 ^ 63"
  shows "b \<le> a \<and> n = a - b"
  using assms by (auto simp: usize_sub_def split: if_splits)

lemma record_tail_RetD:
  assumes "record_tail B orig_len h j = Ret (r, h', nm, su)"
    and len: "orig_len = 32 + length j" "orig_len < 2 ^ 63"
  shows "34 \<le> unat (de_length h)" "unat (de_length h) \<le> orig_len"
    "r = drop (unat (de_length h) - 32) j" "h' = h"
proof -
  from assms(1) obtain n k i' off rem where j: "j = n # k" "unat n \<le> length k"
    and i': "(if Suc (unat n) mod 2 = 0 then Ret (drop (unat n) k)
        else and_then (take_spec 1 (drop (unat n) k)) (\<lambda>(i, _). Ret i)) = (Ret i' :: (nom_err, _) exec)"
    and off: "usize_sub B orig_len (length i') = (Ret off :: (nom_err, nat) exec)"
    and rem: "usize_sub B (unat (de_length h)) off = (Ret rem :: (nom_err, nat) exec)"
      "rem \<le> length i'" "r = drop rem i'" and h': "h' = h"
    by (auto simp: record_tail_def Suc_diff_le dest!: length_data_eq_Ret split del: if_split
        cong: if_cong)
  obtain c where c: "i' = drop c k" "c \<le> length k" "1 \<le> c"
  proof (cases "Suc (unat n) mod 2 = 0")
    case True
    moreover have "1 \<le> unat n" using True by (cases "unat n") auto
    ultimately show thesis using i' j(2) by (intro that [of "unat n"]) auto
  next
    case False
    then show thesis using i' j(2) by (intro that [of "Suc (unat n)"]) auto
  qed
  have off: "off = 33 + c" using off c(1,2) len(1) j(1) by simp
  have "rem < 2 ^ 63" "off < 2 ^ 63" using rem(2) c off len j(1) by simp_all
  with rem(1) have fit: "off \<le> unat (de_length h)" "rem = unat (de_length h) - off"
    using usize_sub_fits by blast+
  show "34 \<le> unat (de_length h)" using fit(1) off c(3) by simp
  show "unat (de_length h) \<le> orig_len" using fit rem(2) c off len(1) j(1) by simp
  have "unat (de_length h) - 32 = Suc (rem + c)" using fit off by simp
  then show "r = drop (unat (de_length h) - 32) j" using rem(3) c(1) j(1) by simp
  show "h' = h" by (rule h')
qed

lemma directory_entry_RetD:
  assumes ret: "directory_entry B i enc = Ret (r, h, nm, su)" and len: "length i < 2 ^ 63"
  shows "34 \<le> unat (de_length h)" "unat (de_length h) \<le> length i" "r = drop (unat (de_length h)) i"
    "de_character_encoding h = enc" "de_length h = hd i"
proof -
  from ret obtain j h1 where fixed: "record_fixed B enc i = Ret (j, h1)"
    and tail: "record_tail B (length i) h1 j = Ret (r, h, nm, su)"
    by (auto simp: directory_entry_split)
  note f = record_fixed_RetD [OF fixed]
  have len': "length i = 32 + length j" using f by simp
  note t = record_tail_RetD [OF tail len' len]
  show "34 \<le> unat (de_length h)" "unat (de_length h) \<le> length i" using t by simp_all
  then show "r = drop (unat (de_length h)) i" using t(3,4) f by simp
  show "de_character_encoding h = enc" "de_length h = hd i" using f t(4) by simp_all
qed

end

section \<open>Recording an entry\<close>

text \<open>An identifier in the encoding of the volume: UTF-8, which contains the characters ECMA-119 allows,
  or UCS-2 in big endian order; the directory itself and its parent are the single bytes 0 and 1
  in either. An identifier that can be recorded so does not end in white space, which the program
  trims, nor start with what the decoder would take for a byte order mark.\<close>

definition enc_name :: "CharacterEncoding \<Rightarrow> ustr \<Rightarrow> u8 list" where
  "enc_name enc s =
    (if s = [0] then [0] else if s = [1] then [1]
     else if enc = Iso9660 then as_bytes s else ucs2_bytes s)"

definition name_ok :: "CharacterEncoding \<Rightarrow> ustr \<Rightarrow> bool" where
  "name_ok enc s \<longleftrightarrow>
    s \<in> {[0], [1]}
    \<or> (s = [] \<or> \<not> is_whitespace (last s))
      \<and> (if enc = Iso9660 then list_all is_scalar s
         else list_all ucs2_char s \<and> \<not> has_bom (ucs2_bytes s))"

definition enc_dir_record :: "DirectoryEntryHeader \<Rightarrow> u8 list \<Rightarrow> u8 list \<Rightarrow> u8 list" where
  "enc_dir_record h name area =
    [de_length h, extended_attribute_record_length h] @ enc_both 4 (extent_loc h)
    @ enc_both 4 (extent_length h) @ enc_date (de_time h)
    @ [file_flags h, file_unit_size h, interleave_gap_size h]
    @ enc_both 2 (de_volume_sequence_number h)
    @ [of_nat (length name)] @ name @ (if even (length name) then [0] else []) @ area"

definition header_ok :: "DirectoryEntryHeader \<Rightarrow> u8 list \<Rightarrow> u8 list \<Rightarrow> bool" where
  "header_ok h name area \<longleftrightarrow>
    unat (de_length h) = 33 + length name + (if even (length name) then 1 else 0) + length area
    \<and> date_ok (de_time h) \<and> file_flags h AND FileFlags_all = file_flags h
    \<and> file_unit_size h = 0 \<and> interleave_gap_size h = 0"

text \<open>The header that is read: the same, but for a date west of Greenwich.\<close>

definition read_header :: "DirectoryEntryHeader \<Rightarrow> DirectoryEntryHeader" where
  "read_header h = h\<lparr>de_time := read_date (de_time h)\<rparr>"

lemma read_header_simps [simp]:
  "de_length (read_header h) = de_length h" "extent_loc (read_header h) = extent_loc h"
  "extent_length (read_header h) = extent_length h" "file_flags (read_header h) = file_flags h"
  "de_character_encoding (read_header h) = de_character_encoding h"
  "de_time (read_header h) = read_date (de_time h)"
  by (simp_all add: read_header_def)

lemma length_enc_date [simp]: "length (enc_date t) = 7"
  by (simp add: enc_date_def)

lemma length_enc_dir_record:
  "header_ok h name area \<Longrightarrow> length (enc_dir_record h name area) = unat (de_length h)"
  by (simp add: enc_dir_record_def header_ok_def)

lemma length_ucs2_bytes: "length (ucs2_bytes s) = 2 * length s"
  by (induction s) (simp_all add: ucs2_bytes_def)

context linked_susp begin

lemma identifier_string_enc:
  assumes "name_ok enc s"
  shows "\<exists>q. identifier_string B enc (enc_name enc s) = Ret (q, s)"
proof (cases "s \<in> {[0], [1]}")
  case True
  then show ?thesis
    by (auto simp: identifier_string_def enc_name_def value_of_def tag_spec_def)
next
  case False
  with assms have trim: "trim_end s = s" by (auto simp: name_ok_def intro: trim_end_last)
  have decode: "decode_string B enc (enc_name enc s) = Ret ([], s)"
  proof (cases "enc = Iso9660")
    case True
    with False assms show ?thesis
      by (simp add: decode_string_def enc_name_def name_ok_def from_utf8_as_bytes trim)
  next
    case ucs2: False
    then have "utf16be_decode B (ucs2_bytes s) = (s, False)"
      using False assms utf16be_decode by (simp add: utf16_spec_def name_ok_def)
    with ucs2 False show ?thesis by (simp add: decode_string_def enc_name_def trim)
  qed
  show ?thesis
  proof (cases "length (enc_name enc s) = 1")
    case True
    then obtain b where b: "enc_name enc s = [b]" by (cases "enc_name enc s") auto
    have "b \<notin> {0, 1}"
    proof
      assume "b \<in> {0, 1}"
      moreover have "enc = Iso9660"
        using True False length_ucs2_bytes [of s] by (auto simp: enc_name_def split: if_splits)
      ultimately have "from_utf8 [b] = Some [unat b]" by (auto simp: from_utf8_def)
      moreover have "from_utf8 [b] = Some s"
        using \<open>enc = Iso9660\<close> False assms b from_utf8_as_bytes [of s] by (simp add: enc_name_def name_ok_def)
      ultimately have "s = [unat b]" by simp
      with False \<open>b \<in> {0, 1}\<close> show False by auto
    qed
    then show ?thesis using decode unfolding b
      by (simp add: identifier_string_def value_of_def tag_spec_def)
  next
    case False
    then show ?thesis using decode by (simp add: identifier_string_def)
  qed
qed

lemma record_fixed_enc:
  assumes "header_ok h name area"
  shows "record_fixed B (de_character_encoding h) (enc_dir_record h name area @ r) =
    Ret ([of_nat (length name)] @ name @ (if even (length name) then [0] else []) @ area @ r,
      read_header h)"
  using assms
  by (simp add: read_header_def record_fixed_def enc_dir_record_def header_ok_def both_endian32_enc
      both_endian16_enc date_time_enc)

lemma record_tail_enc:
  assumes ok: "header_ok h name area" and nm: "identifier_string B (de_character_encoding h) name = Ret (q, nm)"
  shows "record_tail B (unat (de_length h) + length r) (read_header h)
      ([of_nat (length name)] @ name @ (if even (length name) then [0] else []) @ area @ r) =
    and_then (opt_spec (system_use_entries B) area) (\<lambda>(_, su). Ret (r, read_header h, nm, su))"
proof -
  have "unat (de_length h) < 256" by (rule unat_u8)
  then have l: "unat (of_nat (length name) :: u8) = length name"
    using ok by (intro unat_of_nat_u8) (simp add: header_ok_def)
  show ?thesis
  proof (cases "even (length name)")
    case True
    then have "Suc (length name) mod 2 = 1" by presburger
    with True ok nm l show ?thesis
      by (simp add: record_tail_def length_data_spec_def header_ok_def take_spec_def Suc_diff_le)
  next
    case False
    then have "Suc (length name) mod 2 = 0" by presburger
    with False ok nm l show ?thesis
      by (simp add: record_tail_def length_data_spec_def header_ok_def take_spec_def Suc_diff_le)
  qed
qed

lemma directory_entry_area:
  assumes ok: "header_ok h name area" and "identifier_string B (de_character_encoding h) name = Ret (q, nm)"
  shows "directory_entry B (enc_dir_record h name area @ r) (de_character_encoding h) =
    and_then (opt_spec (system_use_entries B) area) (\<lambda>(_, su). Ret (r, read_header h, nm, su))"
  using record_tail_enc [OF assms, of r]
  by (simp add: directory_entry_split record_fixed_enc [OF ok] length_enc_dir_record [OF ok])

lemma directory_entry_enc:
  assumes "header_ok h name area" and "identifier_string B (de_character_encoding h) name = Ret (q, nm)"
    and "opt_spec (system_use_entries B) area = Ret (q', su)"
  shows "directory_entry B (enc_dir_record h name area @ r) (de_character_encoding h) =
    Ret (r, read_header h, nm, su)"
  using directory_entry_area [OF assms(1,2), of r] assms(3) by simp

text \<open>A name that is cut short.\<close>

lemma length_data_short:
  "length k < unat n \<Longrightarrow> length_data_spec le_u8_spec (n # k) = Throw NomIncomplete"
  by (simp add: length_data_spec_def)

lemma date_time_total: "7 \<le> length i \<Longrightarrow> \<exists>t. date_time B i = Ret (drop 7 i, t)"
proof -
  assume "7 \<le> length i"
  then obtain y m d h mi s z r where "i = y # m # d # h # mi # s # z # r"
    by (auto simp: numeral_eq_Suc Suc_le_length_iff)
  then show ?thesis by (simp add: date_time_Cons)
qed

lemma record_fixed_total:
  assumes "32 \<le> length i"
  shows "record_fixed B enc i = Panic \<or> (\<exists>h. record_fixed B enc i = Ret (drop 32 i, h))"
proof -
  obtain T where T: "7 \<le> length i \<Longrightarrow> date_time B i = Ret (drop 7 i, T i)" for i
    using date_time_total by metis
  have byte: "1 \<le> length i \<Longrightarrow> le_u8_spec i = Ret (drop 1 i, hd i)" for i by (cases i) auto
  show ?thesis
    using assms
    by (simp add: record_fixed_def byte T both_endian32_eq both_endian16_eq assertion_def assert_def
        del: and_then_eq_Ret) linarith
qed

lemma directory_entry_short_name:
  assumes "length f = 32" and "length k < unat n"
  shows "DirectoryEntryHeader_parse B (f @ n # k) enc = Panic"
proof -
  have "record_fixed B enc (f @ n # k) = Panic \<or> (\<exists>h. record_fixed B enc (f @ n # k) = Ret (n # k, h))"
    using record_fixed_total [of "f @ n # k" enc] assms(1) by simp
  then show ?thesis using length_data_short [OF assms(2)]
    by (auto simp: DirectoryEntryHeader_parse_def directory_entry_split record_tail_def try_nom_def simp del: and_then_eq_Ret)
qed

end

end
