(* ===== verification/Extra_Meta.thy ===== *)
theory Extra_Meta
  imports Dir_Record
begin

text \<open>
  \<open>cdfs/src/directory_entry/extra_meta.rs\<close>: the metadata collected from the system use area of a
  directory record, and the accessors of the trait \<open>ExtraAttributes\<close>. The trait's two required
  methods give an \<open>ExtraMeta\<close> and a header; each provided method is a function of what it uses of
  the two.
\<close>

record ExtraMeta =
  alt_name :: "ustr option"
  attributes :: "PosixAttributes option"
  symlink_target :: "ustr option"
  extensions :: "SuspExtension set"
  timestamps :: PosixTimestamp
  relocated :: bool

definition ExtraMeta_default :: ExtraMeta where
  "ExtraMeta_default =
    \<lparr>alt_name = None, attributes = None, symlink_target = None, extensions = {},
     timestamps = PosixTimestamp_default, relocated = False\<rparr>"

definition attr_relocated :: "ExtraMeta \<Rightarrow> bool" where
  "attr_relocated ext = relocated ext"

definition attr_time :: "DirectoryEntryHeader \<Rightarrow> OffsetDateTime" where
  "attr_time header = de_time header"

definition owner :: "ExtraMeta \<Rightarrow> u32 option" where
  "owner ext = map_option px_uid (attributes ext)"

definition group :: "ExtraMeta \<Rightarrow> u32 option" where
  "group ext = map_option px_gid (attributes ext)"

definition mode :: "ExtraMeta \<Rightarrow> u32 option" where
  "mode ext = map_option px_mode (attributes ext)"

text \<open>\<open>Option::unwrap_or\<close>.\<close>

definition unwrap_or :: "'a option \<Rightarrow> 'a \<Rightarrow> 'a" where
  "unwrap_or x d = (case x of Some y \<Rightarrow> y | None \<Rightarrow> d)"

definition access_time :: "ExtraMeta \<Rightarrow> DirectoryEntryHeader \<Rightarrow> OffsetDateTime" where
  "access_time ext header = unwrap_or (ts_access (timestamps ext)) (attr_time header)"

definition attribute_change_time :: "ExtraMeta \<Rightarrow> DirectoryEntryHeader \<Rightarrow> OffsetDateTime" where
  "attribute_change_time ext header = unwrap_or (ts_attributes (timestamps ext)) (attr_time header)"

definition backup_time :: "ExtraMeta \<Rightarrow> DirectoryEntryHeader \<Rightarrow> OffsetDateTime" where
  "backup_time ext header = unwrap_or (ts_backup (timestamps ext)) (attr_time header)"

definition create_time :: "ExtraMeta \<Rightarrow> DirectoryEntryHeader \<Rightarrow> OffsetDateTime" where
  "create_time ext header = unwrap_or (ts_creation (timestamps ext)) (attr_time header)"

definition effective_time :: "ExtraMeta \<Rightarrow> DirectoryEntryHeader \<Rightarrow> OffsetDateTime" where
  "effective_time ext header = unwrap_or (ts_effective (timestamps ext)) (attr_time header)"

definition expire_time :: "ExtraMeta \<Rightarrow> DirectoryEntryHeader \<Rightarrow> OffsetDateTime" where
  "expire_time ext header = unwrap_or (ts_expiration (timestamps ext)) (attr_time header)"

definition modify_time :: "ExtraMeta \<Rightarrow> DirectoryEntryHeader \<Rightarrow> OffsetDateTime" where
  "modify_time ext header = unwrap_or (ts_modify (timestamps ext)) (attr_time header)"

definition inode :: "ExtraMeta \<Rightarrow> u32 option" where
  "inode ext =
    (case attributes ext of
       Some attrs \<Rightarrow> (case px_inode attrs of Some n \<Rightarrow> Some n | None \<Rightarrow> None)
     | None \<Rightarrow> None)"

lemma unwrap_or_simps [simp]: "unwrap_or None d = d" "unwrap_or (Some x) d = x"
  by (simp_all add: unwrap_or_def)

end
