(* ===== verification/Fileref.thy ===== *)
theory Fileref
  imports Errors
begin

text \<open>
  \<open>cdfs/src/fileref.rs\<close>: reading blocks of the image. \<open>ISO9660Reader\<close> is a trait the user of the
  library implements, so a reader is an argument of the model: a function of the reader's state, the
  buffer and the block address. The library holds one reader behind \<open>Rc<RefCell<_>>\<close>, shared by all
  its objects: the model passes the one reader state from call to call, and \<open>FileRef\<close> itself, a
  handle to it, holds nothing else.

  The locale \<open>image_reader\<close> is what the library expects of a reader: it serves the bytes of an
  image. The blanket implementation over \<open>Read + Seek\<close> is modelled and shown to be such a reader on
  an in-memory \<open>std::io::Cursor\<close>.
\<close>

abbreviation BLOCK_SIZE :: nat where "BLOCK_SIZE \<equiv> 2048"

text \<open>\<open>read_at(&mut self, buf: &mut [u8], lba: u64) -> io::Result<usize>\<close>: the result, the buffer
  and the reader afterwards.\<close>

type_synonym 'r reader =
  "'r \<Rightarrow> u8 list \<Rightarrow> u64 \<Rightarrow> (io_error, usize) exec \<times> u8 list \<times> 'r"

text \<open>\<open>std::io::Read\<close> and \<open>std::io::Seek\<close> (\<open>SeekFrom::Start\<close>).\<close>

record 'r read_seek =
  io_seek :: "'r \<Rightarrow> u64 \<Rightarrow> (io_error, u64) exec \<times> 'r"
  io_read :: "'r \<Rightarrow> u8 list \<Rightarrow> (io_error, usize) exec \<times> u8 list \<times> 'r"

text \<open>\<open>impl<T: Read + Seek> ISO9660Reader for T\<close>.\<close>

definition blanket_read_at :: "'z build_scheme \<Rightarrow> 'r read_seek \<Rightarrow> 'r reader" where
  "blanket_read_at B t r buf lba =
    (case u64_mul B lba BLOCK_SIZE of
       Ret pos \<Rightarrow>
         (case io_seek t r pos of
            (Ret _, r) \<Rightarrow> io_read t r buf
          | (Throw e, r) \<Rightarrow> (Throw e, buf, r)
          | (Panic, r) \<Rightarrow> (Panic, buf, r)
          | (Hang, r) \<Rightarrow> (Hang, buf, r))
     | Throw e \<Rightarrow> (Throw e, buf, r)
     | Panic \<Rightarrow> (Panic, buf, r)
     | Hang \<Rightarrow> (Hang, buf, r))"

text \<open>\<open>FileRef::read_at\<close> borrows the shared reader and calls it.\<close>

definition FileRef_read_at :: "'r reader \<Rightarrow> 'r reader" where
  "FileRef_read_at rd r buf lba = rd r buf lba"

section \<open>Readers of an image\<close>

text \<open>What \<open>n\<close> bytes at byte position \<open>pos\<close> of the image are, as far as the image goes.\<close>

definition img_at :: "u8 list \<Rightarrow> nat \<Rightarrow> nat \<Rightarrow> u8 list" where
  "img_at img pos n = take n (drop pos img)"

locale image_reader =
  fixes rd :: "'r reader" and inv :: "'r \<Rightarrow> bool" and img :: "u8 list"
  assumes read_image:
    "inv r \<Longrightarrow> lba * BLOCK_SIZE < 2 ^ 64 \<Longrightarrow>
      \<exists>r'. inv r' \<and>
        rd r buf lba =
          (Ret (length (img_at img (lba * BLOCK_SIZE) (length buf))),
           img_at img (lba * BLOCK_SIZE) (length buf)
             @ drop (length (img_at img (lba * BLOCK_SIZE) (length buf))) buf, r')"

lemma length_img_at: "length (img_at img pos n) = min n (length img - pos)"
  by (simp add: img_at_def)

context image_reader begin

lemma FileRef_read_imageE:
  assumes "inv r" and "lba < 2 ^ 53"
  obtains r' where "inv r'"
    "FileRef_read_at rd r buf lba =
      (Ret (length (img_at img (lba * BLOCK_SIZE) (length buf))),
       img_at img (lba * BLOCK_SIZE) (length buf)
         @ drop (length (img_at img (lba * BLOCK_SIZE) (length buf))) buf, r')"
proof -
  have "lba * BLOCK_SIZE < 2 ^ 64" using assms(2) by simp
  from read_image [OF assms(1) this, of buf] that show thesis
    unfolding FileRef_read_at_def by blast
qed

end

section \<open>The blanket implementation on a cursor\<close>

record cursor =
  cur_data :: "u8 list"
  cur_pos :: nat

definition cursor_io :: "cursor read_seek" where
  "cursor_io =
    \<lparr>io_seek = (\<lambda>c pos. (Ret pos, c\<lparr>cur_pos := pos\<rparr>)),
     io_read = (\<lambda>c buf.
       let got = take (length buf) (drop (cur_pos c) (cur_data c))
       in (Ret (length got), got @ drop (length got) buf, c\<lparr>cur_pos := cur_pos c + length got\<rparr>))\<rparr>"

interpretation cursor: image_reader "blanket_read_at B cursor_io" "\<lambda>c. cur_data c = img" img
  by unfold_locales
    (auto simp: blanket_read_at_def u64_mul_def cursor_io_def img_at_def Let_def)

text \<open>A reader that holds its image as a function from block addresses, for images that are mostly
  empty: every block is there and reads in full.\<close>

definition sparse_read_at :: "(u64 \<Rightarrow> u8 list) \<Rightarrow> unit reader" where
  "sparse_read_at blocks r buf lba =
    (let got = take (length buf) (blocks lba) in (Ret (length got), got @ drop (length got) buf, r))"

end
