(* ===== verification/File_Reader.thy ===== *)
theory File_Reader
  imports Fileref
begin

text \<open>
  \<open>ISOFileReader\<close> of \<open>cdfs/src/directory_entry/isofile.rs\<close>: sequential and random access to the
  contents of a file through a one block cache. Over a reader of an image it behaves as a cursor on
  the bytes of the file's extent.
\<close>

record ISOFileReader =
  fr_buf :: "u8 list"
  buf_lba :: "u64 option"
  fr_seek :: usize
  start_lba :: u32
  fr_size :: usize

text \<open>The head of the loop: make sure the buffer holds block \<open>lba\<close>. The number of bytes
  \<open>read_at\<close> reports is not looked at.\<close>

definition load_block ::
    "'r reader \<Rightarrow> u64 \<Rightarrow> ISOFileReader \<Rightarrow> 'r \<Rightarrow> (io_error, unit) exec \<times> ISOFileReader \<times> 'r" where
  "load_block rd lba self r =
    (if buf_lba self \<noteq> Some lba then
       (case FileRef_read_at rd r (fr_buf self) lba of
          (Ret _, buf, r) \<Rightarrow> (Ret (), self\<lparr>fr_buf := buf, buf_lba := Some lba\<rparr>, r)
        | (Throw e, buf, r) \<Rightarrow> (Throw e, self\<lparr>fr_buf := buf\<rparr>, r)
        | (Panic, buf, r) \<Rightarrow> (Panic, self\<lparr>fr_buf := buf\<rparr>, r)
        | (Hang, buf, r) \<Rightarrow> (Hang, self\<lparr>fr_buf := buf\<rparr>, r))
     else (Ret (), self, r))"

lemma read_progress:
  "seek < size \<Longrightarrow> seek mod 2048 < size - seek div 2048 * 2048" for seek size :: nat
  using div_mult_lt [of 2048 seek size] by simp

text \<open>The loop of \<open>Read::read\<close>: \<open>room\<close> is the length of what is left of the caller's buffer and
  \<open>out\<close> what has been written to it.\<close>

function read_loop ::
    "'r reader \<Rightarrow> nat \<Rightarrow> usize \<Rightarrow> ISOFileReader \<Rightarrow> u8 list \<Rightarrow> 'r \<Rightarrow>
     (io_error, usize) exec \<times> ISOFileReader \<times> u8 list \<times> 'r" where
  "read_loop rd room seek self out r =
    (if 0 < room \<and> seek < fr_size self then
       let size = fr_size self; lba = unat (start_lba self) + seek div BLOCK_SIZE in
       (case load_block rd lba self r of
          (Ret _, self, r) \<Rightarrow>
            let start = seek mod BLOCK_SIZE;
                end' = min (size - (seek div BLOCK_SIZE) * BLOCK_SIZE) BLOCK_SIZE in
            (case (slice_of start end' (fr_buf self) :: (io_error, u8 list) exec) of
               Ret data \<Rightarrow>
                 let k = min room (length data) in
                 read_loop rd (room - k) (seek + k) self (out @ take k data) r
             | _ \<Rightarrow> (Panic, self, out, r))
        | (Throw e, self, r) \<Rightarrow> (Throw e, self, out, r)
        | (Panic, self, r) \<Rightarrow> (Panic, self, out, r)
        | (Hang, self, r) \<Rightarrow> (Hang, self, out, r))
     else (Ret seek, self, out, r))"
  by pat_completeness auto
termination
proof (relation "measure (\<lambda>(rd, room, seek, self, out, r). room)", goal_cases)
  case 1
  show ?case by simp
next
  case (2 rd room seek self out r size lba res y u self' r' start end' data k)
  have "start < end'"
    unfolding 2(2,7,8) using 2(1) by (intro div_mult_lt) simp_all
  moreover have "length data = end' - start" using 2(9) by auto
  ultimately have "0 < k" unfolding 2(10) using 2(1) by simp
  then show ?case using 2(1) by simp
qed

declare read_loop.simps [simp del]

text \<open>\<open>impl Read for ISOFileReader\<close>: the result, the reader, the caller's buffer and the device.\<close>

definition ISOFileReader_read ::
    "'r reader \<Rightarrow> ISOFileReader \<Rightarrow> u8 list \<Rightarrow> 'r \<Rightarrow>
     (io_error, usize) exec \<times> ISOFileReader \<times> u8 list \<times> 'r" where
  "ISOFileReader_read rd self buf r =
    (case read_loop rd (length buf) (fr_seek self) self [] r of
       (Ret seek, self', out, r) \<Rightarrow>
         (Ret (seek - fr_seek self), self'\<lparr>fr_seek := seek\<rparr>, out @ drop (length out) buf, r)
     | (Throw e, self', out, r) \<Rightarrow> (Throw e, self', out @ drop (length out) buf, r)
     | (Panic, self', out, r) \<Rightarrow> (Panic, self', out @ drop (length out) buf, r)
     | (Hang, self', out, r) \<Rightarrow> (Hang, self', out @ drop (length out) buf, r))"

datatype SeekFrom = Start u64 | End int | Current int

text \<open>\<open>impl Seek for ISOFileReader\<close>. The casts to \<open>i64\<close> wrap.\<close>

definition ISOFileReader_seek ::
    "'z build_scheme \<Rightarrow> ISOFileReader \<Rightarrow> SeekFrom \<Rightarrow> (io_error, u64) exec \<times> ISOFileReader" where
  "ISOFileReader_seek B self pos =
    (case (case pos of
             Start pos \<Rightarrow> Ret (wrap_i64 (int pos))
           | End pos \<Rightarrow> i64_add B (wrap_i64 (int (fr_size self))) pos
           | Current pos \<Rightarrow> i64_add B (wrap_i64 (int (fr_seek self))) pos) of
       Ret seek \<Rightarrow>
         (if seek < 0 then (Throw InvalidInput, self)
          else (Ret (nat seek), self\<lparr>fr_seek := nat seek\<rparr>))
     | Throw e \<Rightarrow> (Throw e, self)
     | Panic \<Rightarrow> (Panic, self)
     | Hang \<Rightarrow> (Hang, self))"

section \<open>The contents of a file\<close>

text \<open>The bytes of an extent, and what it means for the cache to agree with the image.\<close>

definition file_bytes :: "u8 list \<Rightarrow> ISOFileReader \<Rightarrow> u8 list" where
  "file_bytes img self = img_at img (unat (start_lba self) * BLOCK_SIZE) (fr_size self)"

definition cache_ok :: "u8 list \<Rightarrow> ISOFileReader \<Rightarrow> bool" where
  "cache_ok img self \<longleftrightarrow>
    length (fr_buf self) = BLOCK_SIZE \<and>
    (\<forall>lba. buf_lba self = Some lba \<longrightarrow>
      (\<forall>i < BLOCK_SIZE. lba * BLOCK_SIZE + i < length img \<longrightarrow>
         fr_buf self ! i = img ! (lba * BLOCK_SIZE + i)))"

text \<open>The extent lies inside the image, and its size is one a directory record can hold.\<close>

definition extent_ok :: "u8 list \<Rightarrow> ISOFileReader \<Rightarrow> bool" where
  "extent_ok img self \<longleftrightarrow>
    fr_size self < 2 ^ 32 \<and> unat (start_lba self) * BLOCK_SIZE + fr_size self \<le> length img"

lemma cached_slice:
  assumes "cache_ok img self" and "buf_lba self = Some lba"
    and "e \<le> BLOCK_SIZE" and "lba * BLOCK_SIZE + e \<le> length img"
  shows "drop s (take e (fr_buf self)) = take (e - s) (drop (lba * BLOCK_SIZE + s) img)"
proof (rule nth_equalityI)
  show "length (drop s (take e (fr_buf self))) = length (take (e - s) (drop (lba * BLOCK_SIZE + s) img))"
    using assms by (simp add: cache_ok_def)
next
  fix i assume "i < length (drop s (take e (fr_buf self)))"
  then have "s + i < e" "s + i < BLOCK_SIZE" using assms by (simp_all add: cache_ok_def)
  with assms have "fr_buf self ! (s + i) = img ! (lba * BLOCK_SIZE + (s + i))"
    by (simp add: cache_ok_def)
  with \<open>s + i < e\<close> assms show "drop s (take e (fr_buf self)) ! i
      = take (e - s) (drop (lba * BLOCK_SIZE + s) img) ! i"
    by (simp add: cache_ok_def add.assoc)
qed

lemma drop_file_bytes:
  "drop k (file_bytes img self) =
    take (fr_size self - k) (drop (unat (start_lba self) * BLOCK_SIZE + k) img)"
  by (simp add: file_bytes_def img_at_def drop_take add.commute)

lemma block_end_le: "min (n - a) b - s \<le> n - (a + s)" for n a b s :: nat
  by arith

lemma min_step:
  "k \<le> a \<Longrightarrow> k \<le> b - s \<Longrightarrow> s + k + min (a - k) (b - (s + k)) = s + min a (b - s)" for a b k s :: nat
  by arith

context image_reader begin

lemma load_blockE:
  assumes "inv r" and "cache_ok img self" and "lba < 2 ^ 53"
  obtains self' r' where "load_block rd lba self r = (Ret (), self', r')" "inv r'"
    "cache_ok img self'" "buf_lba self' = Some lba" "fr_seek self' = fr_seek self"
    "start_lba self' = start_lba self" "fr_size self' = fr_size self"
proof (cases "buf_lba self = Some lba")
  case True
  then have "load_block rd lba self r = (Ret (), self, r)" by (simp add: load_block_def)
  with True assms show thesis using that by blast
next
  case False
  let ?got = "img_at img (lba * BLOCK_SIZE) BLOCK_SIZE"
  obtain r' where r': "inv r'"
    "FileRef_read_at rd r (fr_buf self) lba =
      (Ret (length ?got), ?got @ drop (length ?got) (fr_buf self), r')"
    using FileRef_read_imageE [OF assms(1,3), of "fr_buf self"] assms(2)
    unfolding cache_ok_def by metis
  let ?self = "self\<lparr>fr_buf := ?got @ drop (length ?got) (fr_buf self), buf_lba := Some lba\<rparr>"
  have "cache_ok img ?self"
    using assms(2) by (auto simp: cache_ok_def img_at_def nth_append)
  then show thesis
    using False r' by (intro that [of ?self r']) (simp_all add: load_block_def)
qed

text \<open>One round of the loop copies at least one byte of the file.\<close>

lemma read_loop_round:
  assumes "inv r" and "cache_ok img self" and extent: "extent_ok img self" and more: "0 < room" "seek < fr_size self"
  obtains k self1 r1 where "0 < k" "k \<le> room" "k \<le> fr_size self - seek" "inv r1" "cache_ok img self1"
    "fr_seek self1 = fr_seek self" "start_lba self1 = start_lba self" "fr_size self1 = fr_size self"
    "read_loop rd room seek self out r =
      read_loop rd (room - k) (seek + k) self1 (out @ take k (drop seek (file_bytes img self))) r1"
proof -
  let ?size = "fr_size self" and ?S = "unat (start_lba self) * BLOCK_SIZE"
  let ?lba = "unat (start_lba self) + seek div BLOCK_SIZE"
  let ?s = "seek mod BLOCK_SIZE" and ?e = "min (?size - seek div BLOCK_SIZE * BLOCK_SIZE) BLOCK_SIZE"
  have size: "?size < 2 ^ 32" "?S + ?size \<le> length img" using extent by (simp_all add: extent_ok_def)
  have lba: "?lba < 2 ^ 53"
    using unsigned_less [of "start_lba self", where 'a = nat] div_le_dividend [of seek 2048] more size(1)
    by (simp del: div_le_dividend)
  obtain self1 r1 where load: "load_block rd ?lba self r = (Ret (), self1, r1)" "inv r1"
    "cache_ok img self1" "buf_lba self1 = Some ?lba" "fr_seek self1 = fr_seek self"
    "start_lba self1 = start_lba self" "fr_size self1 = ?size"
    by (rule load_blockE [OF assms(1,2) lba])
  define s e where "s = ?s" and "e = ?e"
  have se: "s < e" "e \<le> BLOCK_SIZE"
    unfolding s_def e_def using more by (intro div_mult_lt) simp_all
  have pos: "?lba * BLOCK_SIZE + s = ?S + seek" by (simp add: s_def algebra_simps)
  have "e \<le> ?size - seek div BLOCK_SIZE * BLOCK_SIZE" "seek div BLOCK_SIZE * BLOCK_SIZE \<le> seek"
    by (simp_all add: e_def)
  with size(2) more have ends: "?lba * BLOCK_SIZE + e \<le> length img" unfolding add_mult_distrib by linarith
  have left: "e - s \<le> ?size - seek"
    using block_end_le [of ?size "seek div BLOCK_SIZE * BLOCK_SIZE" BLOCK_SIZE ?s] by (simp add: s_def e_def)
  define data where "data = take (e - s) (drop (?S + seek) img)"
  have slice: "slice_of s e (fr_buf self1) = (Ret data :: (io_error, u8 list) exec)"
    using cached_slice [OF load(3,4) se(2) ends, of s] se load(3) unfolding pos
    by (simp add: data_def cache_ok_def)
  have "e - s \<le> length img - (?S + seek)" using ends se(1) pos by linarith
  then have dlen: "length data = e - s" by (simp add: data_def)
  define k where "k = min room (length data)"
  have k: "0 < k" "k \<le> room" "k \<le> ?size - seek" "k \<le> e - s"
    using more se(1) left unfolding k_def dlen by simp_all
  have "take k data = take k (drop seek (file_bytes img self))"
    using k(3,4) by (simp add: data_def drop_file_bytes min_absorb1)
  moreover have "read_loop rd room seek self out r =
      read_loop rd (room - k) (seek + k) self1 (out @ take k data) r1"
    by (rule trans [OF read_loop.simps]) (use more in \<open>simp add: load slice [unfolded s_def e_def] Let_def k_def\<close>)
  ultimately show thesis using that [OF k(1-3) load(2,3,5-7)] by simp
qed

lemma read_loop_correct:
  assumes "inv r" and "cache_ok img self" and "extent_ok img self"
  shows "\<exists>self' r'. inv r' \<and> cache_ok img self' \<and> fr_seek self' = fr_seek self
    \<and> start_lba self' = start_lba self \<and> fr_size self' = fr_size self
    \<and> read_loop rd room seek self out r =
      (Ret (seek + min room (fr_size self - seek)), self',
       out @ take room (drop seek (file_bytes img self)), r')"
  using assms
proof (induction room arbitrary: seek self out r rule: less_induct)
  case (less room)
  let ?F = "file_bytes img self"
  show ?case
  proof (cases "0 < room \<and> seek < fr_size self")
    case False
    then have "take room (drop seek ?F) = []" "min room (fr_size self - seek) = 0"
      by (auto simp: drop_file_bytes)
    moreover have "read_loop rd room seek self out r = (Ret seek, self, out, r)"
      by (rule trans [OF read_loop.simps if_not_P [OF False]])
    ultimately show ?thesis using less.prems by auto
  next
    case True
    then have more: "0 < room" "seek < fr_size self" by simp_all
    obtain k self1 r1 where k: "0 < k" "k \<le> room" "k \<le> fr_size self - seek" and r1: "inv r1" "cache_ok img self1"
      and kept: "fr_seek self1 = fr_seek self" "start_lba self1 = start_lba self" "fr_size self1 = fr_size self"
      and round: "read_loop rd room seek self out r =
        read_loop rd (room - k) (seek + k) self1 (out @ take k (drop seek ?F)) r1"
      by (rule read_loop_round [OF less.prems more])
    have ext: "extent_ok img self1" "file_bytes img self1 = ?F"
      using less.prems(3) by (simp_all add: extent_ok_def file_bytes_def kept)
    have sum: "room = k + (room - k)" using k(2) by simp
    have bytes: "take room (drop seek ?F) = take k (drop seek ?F) @ take (room - k) (drop (seek + k) ?F)"
      by (subst sum) (simp only: take_drop_add)
    have "room - k < room" using k(1) more by simp
    from less.IH [OF this r1 ext(1), of "seek + k" "out @ take k (drop seek ?F)"]
    show ?thesis unfolding round bytes by (simp only: kept ext(2) min_step [OF k(2,3)] append_assoc)
  qed
qed

end

section \<open>The abstract view: a cursor on the bytes of the file\<close>

record file_cursor =
  fc_bytes :: "u8 list"
  fc_pos :: nat

definition fc_read :: "nat \<Rightarrow> file_cursor \<Rightarrow> u8 list \<times> file_cursor" where
  "fc_read n c = (take n (drop (fc_pos c) (fc_bytes c)),
    c\<lparr>fc_pos := fc_pos c + min n (length (fc_bytes c) - fc_pos c)\<rparr>)"

definition fc_abs :: "u8 list \<Rightarrow> ISOFileReader \<Rightarrow> file_cursor" where
  "fc_abs img self = \<lparr>fc_bytes = file_bytes img self, fc_pos = fr_seek self\<rparr>"

text \<open>The state of a reader that the image backs.\<close>

definition reader_ok :: "u8 list \<Rightarrow> ISOFileReader \<Rightarrow> bool" where
  "reader_ok img self \<longleftrightarrow> cache_ok img self \<and> extent_ok img self"

lemma take_append_length: "take (length xs) (xs @ ys) = xs"
  by simp

lemma length_file_bytes: "extent_ok img self \<Longrightarrow> length (file_bytes img self) = fr_size self"
  by (auto simp: extent_ok_def file_bytes_def length_img_at)

context image_reader begin

lemma read_refines:
  assumes "inv r" and "reader_ok img self"
  shows "\<exists>self' r'. inv r' \<and> reader_ok img self'
    \<and> fc_read (length buf) (fc_abs img self) =
        (take (length buf) (drop (fr_seek self) (file_bytes img self)), fc_abs img self')
    \<and> ISOFileReader_read rd self buf r =
        (let got = fst (fc_read (length buf) (fc_abs img self))
         in (Ret (length got), self', got @ drop (length got) buf, r'))"
proof -
  have ok: "cache_ok img self" "extent_ok img self" using assms(2) by (simp_all add: reader_ok_def)
  let ?got = "take (length buf) (drop (fr_seek self) (file_bytes img self))"
  have len: "length ?got = min (length buf) (fr_size self - fr_seek self)"
    by (simp add: length_file_bytes [OF ok(2)] min.commute)
  obtain self1 r' where loop: "inv r'" "cache_ok img self1" "start_lba self1 = start_lba self"
    "fr_size self1 = fr_size self"
    "read_loop rd (length buf) (fr_seek self) self [] r =
      (Ret (fr_seek self + length ?got), self1, ?got, r')"
    using read_loop_correct [OF assms(1) ok, of "length buf" "fr_seek self" "[]"] unfolding len by auto
  let ?self = "self1\<lparr>fr_seek := fr_seek self + length ?got\<rparr>"
  have "file_bytes img ?self = file_bytes img self" by (simp add: file_bytes_def loop)
  then have "fc_read (length buf) (fc_abs img self) = (?got, fc_abs img ?self)"
    by (simp add: fc_read_def fc_abs_def)
  moreover have "reader_ok img ?self"
    using loop(2) ok(2) by (simp add: reader_ok_def cache_ok_def extent_ok_def loop)
  moreover have "ISOFileReader_read rd self buf r =
      (Ret (length ?got), ?self, ?got @ drop (length ?got) buf, r')"
    by (simp add: ISOFileReader_read_def loop(5) del: length_take length_drop)
  ultimately show ?thesis using loop(1) by (intro exI [of _ ?self] exI [of _ r']) (simp add: Let_def)
qed

end

text \<open>A client that reads the file piece by piece, with buffers of the given lengths.\<close>

fun read_pieces ::
    "'r reader \<Rightarrow> ISOFileReader \<Rightarrow> nat list \<Rightarrow> 'r \<Rightarrow> (io_error, u8 list) exec \<times> ISOFileReader \<times> 'r" where
  "read_pieces rd self [] r = (Ret [], self, r)"
| "read_pieces rd self (n # ns) r =
    (case ISOFileReader_read rd self (replicate n 0) r of
       (Ret k, self, buf, r) \<Rightarrow>
         (case read_pieces rd self ns r of
            (res, self, r) \<Rightarrow> (and_then res (\<lambda>rest. Ret (take k buf @ rest)), self, r))
     | (Throw e, self, buf, r) \<Rightarrow> (Throw e, self, r)
     | (Panic, self, buf, r) \<Rightarrow> (Panic, self, r)
     | (Hang, self, buf, r) \<Rightarrow> (Hang, self, r))"

context image_reader begin

lemma read_pieces_bytes:
  assumes "inv r" and "reader_ok img self"
  shows "\<exists>self' r'. inv r' \<and> reader_ok img self' \<and>
    read_pieces rd self ns r =
      (Ret (take (sum_list ns) (drop (fr_seek self) (file_bytes img self))), self', r')"
  using assms
proof (induction ns arbitrary: self r)
  case Nil
  then show ?case by simp
next
  case (Cons n ns)
  let ?F = "file_bytes img self" and ?p = "fr_seek self"
  let ?got = "take n (drop ?p ?F)"
  from read_refines [OF Cons.prems, of "replicate n 0"] obtain self1 r1 where one:
    "inv r1" "reader_ok img self1" "fc_read n (fc_abs img self) = (?got, fc_abs img self1)"
    "ISOFileReader_read rd self (replicate n 0) r =
      (Ret (length ?got), self1, ?got @ drop (length ?got) (replicate n 0), r1)"
    by (auto simp: Let_def)
  from one(3) have next_pos: "file_bytes img self1 = ?F" "fr_seek self1 = ?p + min n (length ?F - ?p)"
    by (auto simp: fc_read_def fc_abs_def)
  have "drop (fr_seek self1) ?F = drop (?p + n) ?F"
    unfolding next_pos by (cases "n \<le> length ?F - ?p") (simp_all add: min_def)
  then obtain self2 r2 where rest: "inv r2" "reader_ok img self2"
    "read_pieces rd self1 ns r1 =
      (Ret (take (sum_list ns) (drop (?p + n) ?F)), self2, r2)"
    using Cons.IH [OF one(1,2)] next_pos(1) by auto
  have "read_pieces rd self (n # ns) r = (Ret (?got @ take (sum_list ns) (drop (?p + n) ?F)), self2, r2)"
    by (simp only: read_pieces.simps one(4) rest(3) prod.case exec.case and_then.simps take_append_length)
  then show ?case using rest(1,2) by (simp only: sum_list.Cons take_drop_add) blast
qed

end

section \<open>Seeking\<close>

text \<open>The position a request asks for.\<close>

definition seek_target :: "ISOFileReader \<Rightarrow> SeekFrom \<Rightarrow> int" where
  "seek_target self pos =
    (case pos of
       Start pos \<Rightarrow> int pos
     | End pos \<Rightarrow> int (fr_size self) + pos
     | Current pos \<Rightarrow> int (fr_seek self) + pos)"

text \<open>C26: as long as the numbers fit in \<open>i64\<close>, a seek moves to the position asked for, relative to the
  start, the end or the current position, and a position before the start is refused with
  \<open>InvalidInput\<close>, the reader unchanged.\<close>

theorem ISOFileReader_seek_spec:
  assumes "fr_size self < 2 ^ 63" and "fr_seek self < 2 ^ 63"
    and "- (2 ^ 63) \<le> seek_target self pos" and "seek_target self pos < 2 ^ 63"
  shows "ISOFileReader_seek B self pos =
    (if seek_target self pos < 0 then (Throw InvalidInput, self)
     else (Ret (nat (seek_target self pos)), self\<lparr>fr_seek := nat (seek_target self pos)\<rparr>))"
proof -
  have small: "wrap_i64 (int (fr_size self)) = int (fr_size self)"
    "wrap_i64 (int (fr_seek self)) = int (fr_seek self)"
    using assms(1,2) by (simp_all add: wrap_i64_id)
  show ?thesis
    using assms(3,4) wrap_i64_id [OF assms(3,4)]
    by (cases pos) (simp_all add: ISOFileReader_seek_def seek_target_def i64_add_def small)
qed

theorem ISOFileReader_seek_spec_witness:
  "\<exists>self. fr_size self = 100 \<and> fr_seek self = 10 \<and>
    ISOFileReader_seek (std_build True False True) self (End (- 30)) = (Ret 70, self\<lparr>fr_seek := 70\<rparr>)"
proof -
  let ?self = "\<lparr>fr_buf = [], buf_lba = None, fr_seek = 10, start_lba = 0, fr_size = 100\<rparr>"
  have "ISOFileReader_seek (std_build True False True) ?self (End (- 30)) = (Ret 70, ?self\<lparr>fr_seek := 70\<rparr>)"
    using ISOFileReader_seek_spec [of ?self "End (- 30)" "std_build True False True"]
    by (simp add: seek_target_def)
  then show ?thesis by (intro exI [of _ ?self]) simp
qed

section \<open>Properties\<close>

text \<open>C4: over any reader that serves the bytes of an image, \<open>ISOFileReader::read\<close> refines a read on a
  cursor over the bytes of the file's extent: it never fails or unwinds, fills the caller's buffer
  with the bytes from the current position as far as the file goes (whatever blocks they span and
  whatever the one block cache held), leaves the rest of the buffer alone, returns the number of
  bytes, advances by it, and keeps the cache in agreement with the image.\<close>

theorem ISOFileReader_read_refines:
  assumes "image_reader rd ok img" and "ok r" and "reader_ok img self"
  shows "\<exists>got self' r'. ok r' \<and> reader_ok img self'
    \<and> fc_read (length buf) (fc_abs img self) = (got, fc_abs img self')
    \<and> ISOFileReader_read rd self buf r = (Ret (length got), self', got @ drop (length got) buf, r')"
  using image_reader.read_refines [OF assms, of buf] by (metis fst_conv)

definition demo_reader :: ISOFileReader where
  "demo_reader = \<lparr>fr_buf = replicate 2048 0, buf_lba = None, fr_seek = 1, start_lba = 1, fr_size = 3\<rparr>"

definition demo_bytes :: "u8 list" where
  "demo_bytes = replicate 2048 0 @ [7, 8, 9]"

lemma demo_reader_ok: "reader_ok demo_bytes demo_reader"
  by (simp add: reader_ok_def cache_ok_def extent_ok_def demo_reader_def demo_bytes_def)

lemma demo_file_bytes: "file_bytes demo_bytes demo_reader = [7, 8, 9]"
  by (simp add: file_bytes_def img_at_def demo_reader_def demo_bytes_def)

theorem ISOFileReader_read_refines_witness:
  "\<exists>self' r'. reader_ok demo_bytes self' \<and> fr_seek self' = 3 \<and>
    ISOFileReader_read (blanket_read_at (std_build True False True) cursor_io) demo_reader [0, 0, 0, 0]
      \<lparr>cur_data = demo_bytes, cur_pos = 0\<rparr> = (Ret 2, self', [8, 9, 0, 0], r')"
proof -
  have "fc_read (length [0, 0, 0, 0 :: u8]) (fc_abs demo_bytes demo_reader) =
      ([8, 9], \<lparr>fc_bytes = [7, 8, 9], fc_pos = 3\<rparr>)"
    by (simp add: fc_read_def fc_abs_def demo_file_bytes) (simp add: demo_reader_def)
  then show ?thesis
    using ISOFileReader_read_refines [OF cursor.image_reader_axioms,
        of "\<lparr>cur_data = demo_bytes, cur_pos = 0\<rparr>" demo_bytes demo_reader "[0, 0, 0, 0]" "std_build True False True"]
      demo_reader_ok
    by (auto simp: fc_abs_def)
qed

text \<open>C25: reading a file piece by piece, with buffers of any lengths, yields the bytes of the file from
  the current position on, in order and without a gap or a repetition.\<close>

theorem sequential_reads_concatenate:
  assumes "image_reader rd ok img" and "ok r" and "reader_ok img self"
  shows "\<exists>self' r'. reader_ok img self' \<and> read_pieces rd self ns r =
    (Ret (take (sum_list ns) (drop (fr_seek self) (file_bytes img self))), self', r')"
  using image_reader.read_pieces_bytes [OF assms, of ns] by blast

theorem sequential_reads_concatenate_witness:
  "\<exists>self' r'. read_pieces (blanket_read_at (std_build True False True) cursor_io) demo_reader [1, 5]
      \<lparr>cur_data = demo_bytes, cur_pos = 0\<rparr> = (Ret [8, 9], self', r')"
  using sequential_reads_concatenate [OF cursor.image_reader_axioms, of "\<lparr>cur_data = demo_bytes, cur_pos = 0\<rparr>"
      demo_bytes demo_reader "std_build True False True" "[1, 5]"] demo_reader_ok
  by (auto simp: demo_file_bytes) (auto simp: demo_reader_def)

end
