(* ===== verification/Entries.thy ===== *)
theory Entries
  imports Extra_Meta File_Reader
begin

text \<open>
  The entries of a directory: \<open>Symlink\<close> (\<open>directory_entry/symlink.rs\<close>), \<open>ISOFile\<close>
  (\<open>directory_entry/isofile.rs\<close>), the data of \<open>ISODirectory\<close> (\<open>directory_entry/isodirectory.rs\<close>) and
  the enum \<open>DirectoryEntry\<close> over them (\<open>directory_entry/mod.rs\<close>). The handle to the shared reader that
  files and directories carry is left out of their records: the reader is passed to the operations.
\<close>

record Symlink =
  sym_header :: DirectoryEntryHeader
  sym_identifier :: ustr
  sym_version :: u16
  sym_ext :: ExtraMeta

record ISOFile =
  file_header :: DirectoryEntryHeader
  file_identifier :: ustr
  file_version :: u16
  file_ext :: ExtraMeta

record ISODirectory =
  dir_header :: DirectoryEntryHeader
  dir_identifier :: ustr
  dir_ext :: ExtraMeta

datatype DirectoryEntry = Directory ISODirectory | File ISOFile | Symlink Symlink

text \<open>What \<open>Symlink::new\<close> and \<open>ISOFile::new\<close> do to the identifier: the version after the last
  semicolon is split off, then one dot at the end.\<close>

definition name_and_version :: "ustr \<Rightarrow> (ISOError, ustr \<times> u16) exec" where
  "name_and_version identifier =
    and_then
      (case rfind 59 identifier of
         Some idx \<Rightarrow>
           and_then (try_parse_int (parse_u16 (drop (idx + 1) identifier))) (\<lambda>version.
           Ret (take idx identifier, version))
       | None \<Rightarrow> Ret (identifier, 1)) (\<lambda>(identifier, version).
    Ret (if ends_with 46 identifier then butlast identifier else identifier, version))"

definition Symlink_new ::
    "DirectoryEntryHeader \<Rightarrow> ExtraMeta \<Rightarrow> ustr \<Rightarrow> (ISOError, Symlink) exec" where
  "Symlink_new header ext identifier =
    (let identifier = (case alt_name ext of Some alt \<Rightarrow> alt | None \<Rightarrow> identifier) in
    and_then (name_and_version identifier) (\<lambda>(identifier, version).
    Ret \<lparr>sym_header = header, sym_identifier = identifier, sym_version = version, sym_ext = ext\<rparr>))"

definition Symlink_target :: "Symlink \<Rightarrow> ustr option" where
  "Symlink_target self = symlink_target (sym_ext self)"

definition ISOFile_new ::
    "DirectoryEntryHeader \<Rightarrow> ExtraMeta \<Rightarrow> ustr \<Rightarrow> (ISOError, ISOFile) exec" where
  "ISOFile_new header ext identifier =
    (let identifier = (case alt_name ext of Some alt \<Rightarrow> alt | None \<Rightarrow> identifier) in
    and_then (name_and_version identifier) (\<lambda>(identifier, version).
    Ret \<lparr>file_header = header, file_identifier = identifier, file_version = version,
         file_ext = ext\<rparr>))"

definition ISOFile_size :: "ISOFile \<Rightarrow> u32" where
  "ISOFile_size self = extent_length (file_header self)"

text \<open>\<open>ISOFile::read\<close>: \<open>BlockBuffer::new\<close> is 2048 zero bytes (\<open>lib.rs\<close>).\<close>

definition BlockBuffer_new :: "u8 list" where
  "BlockBuffer_new = replicate BLOCK_SIZE 0"

definition ISOFile_read :: "ISOFile \<Rightarrow> ISOFileReader" where
  "ISOFile_read self =
    \<lparr>fr_buf = BlockBuffer_new, buf_lba = None, fr_seek = 0,
     start_lba = extent_loc (file_header self), fr_size = unat (ISOFile_size self)\<rparr>"

definition ISODirectory_new :: "DirectoryEntryHeader \<Rightarrow> ExtraMeta \<Rightarrow> ustr \<Rightarrow> ISODirectory" where
  "ISODirectory_new header ext identifier =
    (let identifier = (case alt_name ext of Some alt \<Rightarrow> alt | None \<Rightarrow> identifier);
         identifier = (if identifier = [0] then lit ''.''
                       else if identifier = [1] then lit ''..'' else identifier)
     in \<lparr>dir_header = header, dir_identifier = identifier, dir_ext = ext\<rparr>)"

definition DirectoryEntry_new ::
    "'z build_scheme \<Rightarrow> DirectoryEntryHeader \<Rightarrow> ExtraMeta \<Rightarrow> ustr \<Rightarrow> (ISOError, DirectoryEntry) exec" where
  "DirectoryEntry_new B header ext identifier =
    (let is_dir = bits8_contains B (file_flags header) FileFlags_DIRECTORY;
         is_symlink = (case attributes ext of
                         Some attrs \<Rightarrow> bits32_contains B (px_mode attrs) TYPE_SYMLINK
                       | None \<Rightarrow> False) in
     if is_dir then Ret (Directory (ISODirectory_new header ext identifier))
     else if is_symlink then
       and_then (Symlink_new header ext identifier) (\<lambda>link. Ret (Symlink link))
     else and_then (ISOFile_new header ext identifier) (\<lambda>file. Ret (File file)))"

primrec entry_identifier :: "DirectoryEntry \<Rightarrow> ustr" where
  "entry_identifier (Directory dir) = dir_identifier dir"
| "entry_identifier (File file) = file_identifier file"
| "entry_identifier (Symlink link) = sym_identifier link"

primrec entry_ext :: "DirectoryEntry \<Rightarrow> ExtraMeta" where
  "entry_ext (Directory dir) = dir_ext dir"
| "entry_ext (File file) = file_ext file"
| "entry_ext (Symlink link) = sym_ext link"

primrec entry_header :: "DirectoryEntry \<Rightarrow> DirectoryEntryHeader" where
  "entry_header (Directory dir) = dir_header dir"
| "entry_header (File file) = file_header file"
| "entry_header (Symlink link) = sym_header link"

section \<open>Names\<close>

text \<open>A recorded name \<open>name;version\<close>, \<open>name.;version\<close>, \<open>name\<close> or \<open>name.\<close>.\<close>

definition recorded_name :: "ustr \<Rightarrow> bool \<Rightarrow> u16 option \<Rightarrow> ustr" where
  "recorded_name name dot version =
    name @ (if dot then [46] else []) @
    (case version of Some v \<Rightarrow> 59 # decimal (unat v) | None \<Rightarrow> [])"

lemma name_and_version_recorded:
  assumes "59 \<notin> set name" and "dot \<or> \<not> ends_with 46 name"
  shows "name_and_version (recorded_name name dot version) =
    Ret (name, case version of Some v \<Rightarrow> v | None \<Rightarrow> 1)"
proof (cases version)
  case None
  then have rec: "recorded_name name dot version = name @ (if dot then [46] else [])"
    by (simp add: recorded_name_def)
  have "rfind 59 (name @ (if dot then [46] else [])) = None" using assms(1) by simp
  then show ?thesis using assms(2) None unfolding rec
    by (simp add: name_and_version_def ends_with_def del: rfind_None) blast
next
  case (Some v)
  have "59 \<notin> set (decimal (unat v))" using decimal_digits by fastforce
  then have "rfind 59 ((name @ (if dot then [46] else [])) @ 59 # decimal (unat v)) =
      Some (length (name @ (if dot then [46] else [])))"
    by (rule rfind_append)
  moreover have "parse_u16 (decimal (unat v)) = Inr v"
    using parse_u16_decimal [of "unat v"] unsigned_less [of v, where 'a = nat] by simp
  moreover have "recorded_name name dot version =
      (name @ (if dot then [46] else [])) @ 59 # decimal (unat v)"
    using Some by (simp add: recorded_name_def)
  ultimately show ?thesis
    using Some assms(2) by (simp add: name_and_version_def ends_with_def) blast
qed

lemma name_and_version_returns: "returns (name_and_version s)"
  by (auto simp: name_and_version_def returns_def and_then_eq_Panic and_then_eq_Hang
      try_parse_int_def split: option.splits sum.splits)

lemma DirectoryEntry_new_returns: "returns (DirectoryEntry_new B header ext identifier)"
  using name_and_version_returns
  by (simp add: DirectoryEntry_new_def Symlink_new_def ISOFile_new_def Let_def returns_and_then
      split: prod.splits)

lemma DirectoryEntry_new_header:
  "DirectoryEntry_new B header ext identifier = Ret entry \<Longrightarrow>
    entry_header entry = header \<and> entry_ext entry = ext"
  by (auto simp: DirectoryEntry_new_def Symlink_new_def ISOFile_new_def ISODirectory_new_def Let_def
      split: if_splits)

lemma ISOFile_read_ok:
  "unat (extent_loc (file_header f)) * BLOCK_SIZE + unat (ISOFile_size f) \<le> length img \<Longrightarrow>
    reader_ok img (ISOFile_read f)"
  using unsigned_less [of "ISOFile_size f", where 'a = nat]
  by (simp add: reader_ok_def cache_ok_def extent_ok_def ISOFile_read_def BlockBuffer_new_def)

end
