(* ===== verification/Iso_Directory.thy ===== *)
theory Iso_Directory
  imports Entries
begin

text \<open>
  \<open>ISODirectory\<close> of \<open>cdfs/src/directory_entry/isodirectory.rs\<close>: reading the records of a directory,
  iterating over them, and looking up a name or a path.

  A loop of the source that need not end (the chain of continuation areas, the iteration over a
  directory) is a \<open>partial_function\<close> whose value is \<open>None\<close> when it does not return; the operation that
  runs it turns \<open>None\<close> into \<open>Hang\<close>.
\<close>

definition block_count :: "'z build_scheme \<Rightarrow> ISODirectory \<Rightarrow> ('e, u32) exec" where
  "block_count B self =
    (let len = extent_length (dir_header self); block_size = (2048 :: u32) in
    and_then (word_add B len block_size) (\<lambda>n.
    and_then (word_sub B n 1) (\<lambda>n.
    Ret (n div block_size))))"

section \<open>The metadata of the system use area\<close>

text \<open>The fold that takes the continuation out of the entries of the record; the last one wins.\<close>

definition split_continuation ::
    "SystemUseEntry list \<Rightarrow> SystemUseEntry list \<times> ContinuationArea option" where
  "split_continuation susp =
    foldl (\<lambda>(susp, continuation) entry.
             case entry of
               ContinuationArea cont \<Rightarrow> (susp, Some cont)
             | _ \<Rightarrow> (susp @ [entry], continuation)) ([], None) susp"

text \<open>Read one continuation area. Only the start of the block is parsed: the
  \<open>offset\<close> field of the entry is not used.\<close>

definition read_continuation ::
    "'z susp_build_scheme \<Rightarrow> 'r reader \<Rightarrow> ContinuationArea \<Rightarrow> 'r \<Rightarrow>
     (ISOError, SystemUseEntry list) exec \<times> 'r" where
  "read_continuation B rd cont r =
    (case FileRef_read_at rd r BlockBuffer_new (unat (block_location cont)) of
       (Ret count, block, r) \<Rightarrow>
         (and_then (assertion B (count = 2048 \<or> count = unat (ce_length cont))) (\<lambda>_.
          and_then (slice_of 0 (unat (ce_length cont)) block) (\<lambda>data.
          and_then (try_nom (system_use_entries B data)) (\<lambda>(_, cont_susp).
          Ret cont_susp))), r)
     | (Throw e, block, r) \<Rightarrow> (Throw (Io e), r)
     | (Panic, block, r) \<Rightarrow> (Panic, r)
     | (Hang, block, r) \<Rightarrow> (Hang, r))"

text \<open>\<open>position\<close> and \<open>remove\<close> of the first continuation entry.\<close>

fun remove_continuation ::
    "SystemUseEntry list \<Rightarrow> SystemUseEntry list \<times> ContinuationArea option" where
  "remove_continuation [] = ([], None)"
| "remove_continuation (ContinuationArea cont # susp) = (susp, Some cont)"
| "remove_continuation (entry # susp) =
    (case remove_continuation susp of (susp, cont) \<Rightarrow> (entry # susp, cont))"

text \<open>One turn of the loop: it goes on with a new list and continuation, or the function ends.\<close>

definition continuation_step ::
    "'z susp_build_scheme \<Rightarrow> 'r reader \<Rightarrow> ContinuationArea \<Rightarrow> SystemUseEntry list \<Rightarrow> 'r \<Rightarrow>
     (ISOError, SystemUseEntry list \<times> ContinuationArea option) exec \<times> 'r" where
  "continuation_step B rd cont susp r =
    (case read_continuation B rd cont r of
       (res, r) \<Rightarrow>
         (and_then res (\<lambda>cont_susp. Ret (remove_continuation (susp @ cont_susp))), r))"

partial_function (option) continuation_loop ::
    "'z susp_build_scheme \<Rightarrow> 'r reader \<Rightarrow> ContinuationArea option \<Rightarrow> SystemUseEntry list \<Rightarrow> 'r \<Rightarrow>
     ((ISOError, SystemUseEntry list) exec \<times> 'r) option" where
  "continuation_loop B rd cont susp r =
    (case cont of
       None \<Rightarrow> Some (Ret susp, r)
     | Some current_cont \<Rightarrow>
         (case continuation_step B rd current_cont susp r of
            (Ret (susp, cont), r) \<Rightarrow> continuation_loop B rd cont susp r
          | (Throw e, r) \<Rightarrow> Some (Throw e, r)
          | (Panic, r) \<Rightarrow> Some (Panic, r)
          | (Hang, r) \<Rightarrow> Some (Hang, r)))"

definition pull_continuations ::
    "'z susp_build_scheme \<Rightarrow> 'r reader \<Rightarrow> ContinuationArea option \<Rightarrow> SystemUseEntry list \<Rightarrow> 'r \<Rightarrow>
     (ISOError, SystemUseEntry list) exec \<times> 'r" where
  "pull_continuations B rd cont susp r =
    (case continuation_loop B rd cont susp r of Some x \<Rightarrow> x | None \<Rightarrow> (Hang, r))"

text \<open>\<open>iter().filter_map(f).next()\<close>.\<close>

definition first_of :: "('a \<Rightarrow> 'b option) \<Rightarrow> 'a list \<Rightarrow> 'b option" where
  "first_of f xs = (case List.map_filter f xs of [] \<Rightarrow> None | y # _ \<Rightarrow> Some y)"

definition susp_extensions :: "SystemUseEntry list \<Rightarrow> SuspExtension set" where
  "susp_extensions susp =
    set (case first_of (\<lambda>e. case e of ExtensionsReference er \<Rightarrow> Some (er_extensions er) | _ \<Rightarrow> None) susp of
           Some es \<Rightarrow> es | None \<Rightarrow> [])"

definition susp_relocated :: "SystemUseEntry list \<Rightarrow> bool" where
  "susp_relocated susp =
    (case first_of (\<lambda>e. case e of RelocatedDirectory b \<Rightarrow> Some b | _ \<Rightarrow> None) susp of
       Some _ \<Rightarrow> True | None \<Rightarrow> False)"

definition susp_child_link :: "SystemUseEntry list \<Rightarrow> ChildLink option" where
  "susp_child_link susp = first_of (\<lambda>e. case e of ChildLink l \<Rightarrow> Some l | _ \<Rightarrow> None) susp"

definition susp_alt_name :: "'z susp_build_scheme \<Rightarrow> SystemUseEntry list \<Rightarrow> ustr option" where
  "susp_alt_name B susp =
    foldl (\<lambda>acc name. Some (unwrap_or acc [] @ an_name name)) None
      (take_while_inclusive_nm B (\<lambda>name. bits8_contains B (an_flags name) AlternateName_CONTINUE)
        (List.map_filter (\<lambda>e. case e of AlternateName name \<Rightarrow> Some name | _ \<Rightarrow> None) susp))"

definition merge_timestamp :: "PosixTimestamp \<Rightarrow> PosixTimestamp \<Rightarrow> PosixTimestamp" where
  "merge_timestamp acc new =
    (let acc = (case ts_creation new of Some t \<Rightarrow> acc\<lparr>ts_creation := Some t\<rparr> | None \<Rightarrow> acc);
         acc = (case ts_modify new of Some t \<Rightarrow> acc\<lparr>ts_modify := Some t\<rparr> | None \<Rightarrow> acc);
         acc = (case ts_access new of Some t \<Rightarrow> acc\<lparr>ts_access := Some t\<rparr> | None \<Rightarrow> acc)
     in (case ts_attributes new of Some t \<Rightarrow> acc\<lparr>ts_attributes := Some t\<rparr> | None \<Rightarrow> acc))"

definition susp_timestamps :: "SystemUseEntry list \<Rightarrow> PosixTimestamp" where
  "susp_timestamps susp =
    foldl merge_timestamp PosixTimestamp_default
      (List.map_filter (\<lambda>e. case e of PosixTimestamp t \<Rightarrow> Some t | _ \<Rightarrow> None) susp)"

text \<open>The path a component of a symbolic link stands for.\<close>

definition component_path :: "'z build_scheme \<Rightarrow> SymbolicLinkRecord \<Rightarrow> ('e, ustr) exec" where
  "component_path B component =
    (if bits8_contains B (sl_flags component) SL_ROOT then
       and_then (assertion B (sl_component component = [])) (\<lambda>_. Ret (lit ''/''))
     else if bits8_contains B (sl_flags component) SL_CURRENT then
       and_then (assertion B (sl_component component = [])) (\<lambda>_. Ret (lit ''.''))
     else if bits8_contains B (sl_flags component) SL_PARENT then
       and_then (assertion B (sl_component component = [])) (\<lambda>_. Ret (lit ''..''))
     else Ret (sl_component component))"

fun join_components :: "'z build_scheme \<Rightarrow> ustr \<Rightarrow> SymbolicLinkRecord list \<Rightarrow> ('e, ustr) exec" where
  "join_components B acc [] = Ret acc"
| "join_components B acc (c # cs) =
    and_then (component_path B c) (\<lambda>p. join_components B (path_join acc p) cs)"

fun join_links :: "'z build_scheme \<Rightarrow> ustr option \<Rightarrow> SymbolicLink list \<Rightarrow> ('e, ustr option) exec" where
  "join_links B acc [] = Ret acc"
| "join_links B acc (l # ls) =
    and_then (join_components B [] (sl_records l)) (\<lambda>p.
    join_links B (Some (path_join (unwrap_or acc []) p)) ls)"

definition susp_symlink_target ::
    "'z susp_build_scheme \<Rightarrow> SystemUseEntry list \<Rightarrow> ('e, ustr option) exec" where
  "susp_symlink_target B susp =
    join_links B None (take_while_inclusive_sl B should_continue
      (List.map_filter (\<lambda>e. case e of SymbolicLink l \<Rightarrow> Some l | _ \<Rightarrow> None) susp))"

definition susp_attributes :: "SystemUseEntry list \<Rightarrow> PosixAttributes option" where
  "susp_attributes susp = first_of (\<lambda>e. case e of PosixAttributes a \<Rightarrow> Some a | _ \<Rightarrow> None) susp"

definition extra_meta_of :: "'z susp_build_scheme \<Rightarrow> SystemUseEntry list \<Rightarrow> ('e, ExtraMeta) exec" where
  "extra_meta_of B susp =
    and_then (susp_symlink_target B susp) (\<lambda>target.
    Ret \<lparr>alt_name = susp_alt_name B susp, attributes = susp_attributes susp, symlink_target = target,
         extensions = susp_extensions susp, timestamps = susp_timestamps susp,
         relocated = susp_relocated susp\<rparr>)"

section \<open>Reading one entry\<close>

text \<open>Make sure the caller's buffer holds block \<open>block_num\<close> of the directory.\<close>

definition load_dir_block ::
    "'r reader \<Rightarrow> ISODirectory \<Rightarrow> u64 \<Rightarrow> u8 list \<Rightarrow> u64 option \<Rightarrow> 'r \<Rightarrow>
     (ISOError, unit) exec \<times> u8 list \<times> u64 option \<times> 'r" where
  "load_dir_block rd self block_num block buf_block_num r =
    (if buf_block_num \<noteq> Some block_num then
       (case FileRef_read_at rd r block (unat (extent_loc (dir_header self)) + block_num) of
          (Ret count, block, r) \<Rightarrow>
            (if count \<noteq> 2048 then (Throw (ReadSize count), block, None, r)
             else (Ret (), block, Some block_num, r))
        | (Throw e, block, r) \<Rightarrow> (Throw (Io e), block, buf_block_num, r)
        | (Panic, block, r) \<Rightarrow> (Panic, block, buf_block_num, r)
        | (Hang, block, r) \<Rightarrow> (Hang, block, buf_block_num, r))
     else (Ret (), block, buf_block_num, r))"

text \<open>Where the next record is.\<close>

definition next_entry_offset ::
    "'z build_scheme \<Rightarrow> ISODirectory \<Rightarrow> u8 list \<Rightarrow> u64 \<Rightarrow> usize \<Rightarrow> ('e, u64 option) exec" where
  "next_entry_offset B self block block_num block_pos =
    and_then
      (if 2048 - 33 \<le> block_pos then Ret True
       else and_then (index_of block block_pos) (\<lambda>b. Ret (b = 0))) (\<lambda>at_end.
    let (block_num, block_pos) = (if at_end then (block_num + 1, 0) else (block_num, block_pos)) in
    and_then (block_count B self) (\<lambda>count.
    Ret (if block_num < unat count then Some (2048 * block_num + block_pos) else None)))"

text \<open>A \<open>CL\<close> entry turns the record of a file into the directory it stands for.\<close>

definition follow_child_link ::
    "'z build_scheme \<Rightarrow> ChildLink option \<Rightarrow> DirectoryEntry \<Rightarrow> ('e, DirectoryEntry) exec" where
  "follow_child_link B child_link entry =
    (case child_link of
       Some loc \<Rightarrow>
         (case entry of
            File file_entry \<Rightarrow>
              let header = file_header file_entry;
                  header = header\<lparr>file_flags := bits8_union B (file_flags header) FileFlags_DIRECTORY,
                                  extent_loc := loc, extent_length := 2048\<rparr> in
              Ret (Directory (ISODirectory_new header (file_ext file_entry) (file_identifier file_entry)))
          | _ \<Rightarrow> Panic)
     | None \<Rightarrow> Ret entry)"

text \<open>What follows the continuations: build the entry, find the next offset, follow the link.\<close>

definition finish_entry ::
    "'z susp_build_scheme \<Rightarrow> ISODirectory \<Rightarrow> u8 list \<Rightarrow> u64 \<Rightarrow> usize \<Rightarrow> DirectoryEntryHeader \<Rightarrow> ustr \<Rightarrow>
     SystemUseEntry list \<Rightarrow> (ISOError, DirectoryEntry \<times> u64 option) exec" where
  "finish_entry B self block block_num block_pos header identifier susp =
    and_then (extra_meta_of B susp) (\<lambda>extra_meta.
    let block_pos = block_pos + unat (de_length header) in
    and_then (DirectoryEntry_new B header extra_meta identifier) (\<lambda>entry.
    and_then (next_entry_offset B self block block_num block_pos) (\<lambda>next_offset.
    and_then (follow_child_link B (susp_child_link susp) entry) (\<lambda>entry.
    Ret (entry, next_offset)))))"

definition parse_entry ::
    "'z susp_build_scheme \<Rightarrow> 'r reader \<Rightarrow> ISODirectory \<Rightarrow> u8 list \<Rightarrow> u64 \<Rightarrow> usize \<Rightarrow> 'r \<Rightarrow>
     (ISOError, DirectoryEntry \<times> u64 option) exec \<times> 'r" where
  "parse_entry B rd self block block_num block_pos r =
    (case and_then (slice_of block_pos (length block) block) (\<lambda>data.
          DirectoryEntryHeader_parse B data (de_character_encoding (dir_header self))) of
       Ret (header, identifier, susp) \<Rightarrow>
         let (susp, cont) = (case susp of Some susp \<Rightarrow> split_continuation susp | None \<Rightarrow> ([], None)) in
         (case pull_continuations B rd cont susp r of
            (res, r) \<Rightarrow>
              (and_then res (finish_entry B self block block_num block_pos header identifier), r))
     | Throw e \<Rightarrow> (Throw e, r)
     | Panic \<Rightarrow> (Panic, r)
     | Hang \<Rightarrow> (Hang, r))"

definition read_entry_at ::
    "'z susp_build_scheme \<Rightarrow> 'r reader \<Rightarrow> ISODirectory \<Rightarrow> u8 list \<Rightarrow> u64 option \<Rightarrow> u64 \<Rightarrow> 'r \<Rightarrow>
     (ISOError, DirectoryEntry \<times> u64 option) exec \<times> u8 list \<times> u64 option \<times> 'r" where
  "read_entry_at B rd self block buf_block_num offset r =
    (let block_num = offset div 2048; block_pos = offset mod 2048 in
     (case load_dir_block rd self block_num block buf_block_num r of
        (Ret _, block, buf_block_num, r) \<Rightarrow>
          (case parse_entry B rd self block block_num block_pos r of
             (res, r) \<Rightarrow> (res, block, buf_block_num, r))
      | (Throw e, block, buf_block_num, r) \<Rightarrow> (Throw e, block, buf_block_num, r)
      | (Panic, block, buf_block_num, r) \<Rightarrow> (Panic, block, buf_block_num, r)
      | (Hang, block, buf_block_num, r) \<Rightarrow> (Hang, block, buf_block_num, r)))"

section \<open>Iteration and lookup\<close>

record ISODirectoryIterator =
  it_directory :: ISODirectory
  next_offset :: "u64 option"
  it_block :: "u8 list"
  it_block_num :: "u64 option"

definition contents :: "ISODirectory \<Rightarrow> ISODirectoryIterator" where
  "contents self =
    \<lparr>it_directory = self, next_offset = Some 0, it_block = BlockBuffer_new, it_block_num = None\<rparr>"

text \<open>\<open>Iterator::next\<close>: \<open>None\<close> at the end, else the result of the call. After an error the offset
  stays where it was.\<close>

definition iterator_next ::
    "'z susp_build_scheme \<Rightarrow> 'r reader \<Rightarrow> ISODirectoryIterator \<Rightarrow> 'r \<Rightarrow>
     (ISOError, DirectoryEntry) exec option \<times> ISODirectoryIterator \<times> 'r" where
  "iterator_next B rd self r =
    (case next_offset self of
       None \<Rightarrow> (None, self, r)
     | Some offset \<Rightarrow>
         (case read_entry_at B rd (it_directory self) (it_block self) (it_block_num self) offset r of
            (res, block, block_num, r) \<Rightarrow>
              let self = self\<lparr>it_block := block, it_block_num := block_num\<rparr> in
              (case res of
                 Ret (entry, nxt) \<Rightarrow> (Some (Ret entry), self\<lparr>next_offset := nxt\<rparr>, r)
               | Throw e \<Rightarrow> (Some (Throw e), self, r)
               | Panic \<Rightarrow> (Some Panic, self, r)
               | Hang \<Rightarrow> (Some Hang, self, r))))"

definition name_matches :: "'z build_scheme \<Rightarrow> ustr \<Rightarrow> DirectoryEntry \<Rightarrow> bool" where
  "name_matches B identifier entry \<longleftrightarrow>
    \<not> bits8_contains B (file_flags (entry_header entry)) FileFlags_ASSOCIATED_FILE
    \<and> eq_ignore_ascii_case (entry_identifier entry) identifier"

partial_function (option) find_loop ::
    "'z susp_build_scheme \<Rightarrow> 'r reader \<Rightarrow> ustr \<Rightarrow> ISODirectoryIterator \<Rightarrow> 'r \<Rightarrow>
     ((ISOError, DirectoryEntry option) exec \<times> 'r) option" where
  "find_loop B rd identifier it r =
    (case iterator_next B rd it r of
       (None, it, r) \<Rightarrow> Some (Ret None, r)
     | (Some res, it, r) \<Rightarrow>
         (case res of
            Ret entry \<Rightarrow>
              if name_matches B identifier entry then Some (Ret (Some entry), r)
              else find_loop B rd identifier it r
          | Throw e \<Rightarrow> Some (Throw e, r)
          | Panic \<Rightarrow> Some (Panic, r)
          | Hang \<Rightarrow> Some (Hang, r)))"

definition find_entry ::
    "'z susp_build_scheme \<Rightarrow> 'r reader \<Rightarrow> ISODirectory \<Rightarrow> ustr \<Rightarrow> 'r \<Rightarrow>
     (ISOError, DirectoryEntry option) exec \<times> 'r" where
  "find_entry B rd self identifier r =
    (case find_loop B rd identifier (contents self) r of Some x \<Rightarrow> x | None \<Rightarrow> (Hang, r))"

fun find_segments ::
    "'z susp_build_scheme \<Rightarrow> 'r reader \<Rightarrow> DirectoryEntry \<Rightarrow> ustr list \<Rightarrow> 'r \<Rightarrow>
     (ISOError, DirectoryEntry option) exec \<times> 'r" where
  "find_segments B rd entry [] r = (Ret (Some entry), r)"
| "find_segments B rd entry (segment # segments) r =
    (case entry of
       Directory parent \<Rightarrow>
         (case find_entry B rd parent segment r of
            (Ret (Some entry), r) \<Rightarrow> find_segments B rd entry segments r
          | (Ret None, r) \<Rightarrow> (Ret None, r)
          | (Throw e, r) \<Rightarrow> (Throw e, r)
          | (Panic, r) \<Rightarrow> (Panic, r)
          | (Hang, r) \<Rightarrow> (Hang, r))
     | _ \<Rightarrow> (Ret None, r))"

definition path_segments :: "ustr \<Rightarrow> ustr list" where
  "path_segments path = filter (\<lambda>x. x \<noteq> []) (split_on 47 path)"

definition find_recursive ::
    "'z susp_build_scheme \<Rightarrow> 'r reader \<Rightarrow> ISODirectory \<Rightarrow> ustr \<Rightarrow> 'r \<Rightarrow>
     (ISOError, DirectoryEntry option) exec \<times> 'r" where
  "find_recursive B rd self path r = find_segments B rd (Directory self) (path_segments path) r"

definition is_rock_ridge :: "ISODirectory \<Rightarrow> bool" where
  "is_rock_ridge self \<longleftrightarrow>
    RockRidge1_09 \<in> extensions (dir_ext self) \<or> RockRidge1_12 \<in> extensions (dir_ext self)"

end
