(* ===== verification/Vol_Desc.thy ===== *)
theory Vol_Desc
  imports Dir_Record
begin

text \<open>
  \<open>cdfs/src/parse/volume_descriptor.rs\<close>: the volume descriptors of ECMA-119 8 and their parsers.
\<close>

record VolumeDescriptorTable =
  system_identifier :: ustr
  volume_identifier :: ustr
  vd_character_encoding :: CharacterEncoding
  volume_space_size :: u32
  volume_set_size :: u16
  volume_sequence_number :: u16
  logical_block_size :: u16
  path_table_size :: u32
  path_table_loc :: u32
  optional_path_table_loc :: u32
  root_directory_entry :: DirectoryEntryHeader
  root_directory_entry_identifier :: ustr
  volume_set_identifier :: ustr
  publisher_identifier :: ustr
  data_preparer_identifier :: ustr
  application_identifier :: ustr
  copyright_file_identifier :: ustr
  abstract_file_identifier :: ustr
  bibliographic_file_identifier :: ustr
  vd_creation_time :: OffsetDateTime
  vd_modification_time :: OffsetDateTime
  vd_expiration_time :: OffsetDateTime
  vd_effective_time :: OffsetDateTime
  file_structure_version :: u8

datatype VolumeDescriptor =
    Primary VolumeDescriptorTable
  | Supplementary VolumeDescriptorTable
  | BootRecord (boot_system_identifier: ustr) (boot_identifier: ustr) (boot_data: "u8 list")
  | VolumeDescriptorSetTerminator

text \<open>\<open>map_parser(take(n), decode_string(CharacterEncoding::Iso9660))\<close>.\<close>

definition take_decoded :: "'z build_scheme \<Rightarrow> usize \<Rightarrow> ustr parser" where
  "take_decoded B n i =
    and_then (nom_take B n i) (\<lambda>(i, bytes).
    and_then (decode_string B Iso9660 bytes) (\<lambda>(_, s).
    Ret (i, s)))"

definition boot_record :: "'z build_scheme \<Rightarrow> VolumeDescriptor parser" where
  "boot_record B i =
    and_then (take_decoded B 32 i) (\<lambda>(i, boot_system_identifier).
    and_then (take_decoded B 32 i) (\<lambda>(i, boot_identifier).
    and_then (nom_take B 1977 i) (\<lambda>(i, data).
    Ret (i, BootRecord boot_system_identifier boot_identifier data))))"

definition descriptor_table :: "'z susp_build_scheme \<Rightarrow> VolumeDescriptorTable parser" where
  "descriptor_table B i =
    and_then (nom_take B 1 i) (\<lambda>(i, _).
    and_then (nom_take B 32 i) (\<lambda>(i, sys_id).
    and_then (nom_take B 32 i) (\<lambda>(i, vol_id).
    and_then (nom_take B 8 i) (\<lambda>(i, _).
    and_then (both_endian32 B i) (\<lambda>(i, space_size).
    and_then (character_encoding B i) (\<lambda>(i, enc).
    and_then (both_endian16 B i) (\<lambda>(i, set_size).
    and_then (both_endian16 B i) (\<lambda>(i, seq).
    and_then (both_endian16 B i) (\<lambda>(i, block_size).
    and_then (both_endian32 B i) (\<lambda>(i, pt_size).
    and_then (nom_le_u32 B i) (\<lambda>(i, pt_loc).
    and_then (nom_le_u32 B i) (\<lambda>(i, opt_pt_loc).
    and_then (nom_take B 4 i) (\<lambda>(i, _).
    and_then (nom_take B 4 i) (\<lambda>(i, _).
    and_then (directory_entry B i enc) (\<lambda>(i, root_header, root_identifier, _).
    and_then (nom_take B 128 i) (\<lambda>(i, set_id).
    and_then (nom_take B 128 i) (\<lambda>(i, publisher).
    and_then (nom_take B 128 i) (\<lambda>(i, preparer).
    and_then (nom_take B 128 i) (\<lambda>(i, application).
    and_then (nom_take B 38 i) (\<lambda>(i, copyright).
    and_then (nom_take B 36 i) (\<lambda>(i, abstract).
    and_then (nom_take B 37 i) (\<lambda>(i, bibliographic).
    and_then (date_time_ascii B i) (\<lambda>(i, created).
    and_then (date_time_ascii B i) (\<lambda>(i, modified).
    and_then (date_time_ascii B i) (\<lambda>(i, expires).
    and_then (date_time_ascii B i) (\<lambda>(i, effective).
    and_then (nom_le_u8 B i) (\<lambda>(i, version).
    and_then (decode_string B enc sys_id) (\<lambda>(_, sys_id).
    and_then (decode_string B enc vol_id) (\<lambda>(_, vol_id).
    and_then (decode_string B enc set_id) (\<lambda>(_, set_id).
    and_then (decode_string B enc publisher) (\<lambda>(_, publisher).
    and_then (decode_string B enc preparer) (\<lambda>(_, preparer).
    and_then (decode_string B enc application) (\<lambda>(_, application).
    and_then (decode_string B enc copyright) (\<lambda>(_, copyright).
    and_then (decode_string B enc abstract) (\<lambda>(_, abstract).
    and_then (decode_string B Iso9660 bibliographic) (\<lambda>(_, bibliographic).
    Ret (i, \<lparr>system_identifier = sys_id, volume_identifier = vol_id, vd_character_encoding = enc,
             volume_space_size = space_size, volume_set_size = set_size,
             volume_sequence_number = seq, logical_block_size = block_size,
             path_table_size = pt_size, path_table_loc = pt_loc,
             optional_path_table_loc = opt_pt_loc, root_directory_entry = root_header,
             root_directory_entry_identifier = root_identifier, volume_set_identifier = set_id,
             publisher_identifier = publisher, data_preparer_identifier = preparer,
             application_identifier = application, copyright_file_identifier = copyright,
             abstract_file_identifier = abstract, bibliographic_file_identifier = bibliographic,
             vd_creation_time = created, vd_modification_time = modified, vd_expiration_time = expires,
             vd_effective_time = effective, file_structure_version = version\<rparr>)
    ))))))))))))))))))))))))))))))))))))"

definition supplementary_descriptor :: "'z susp_build_scheme \<Rightarrow> VolumeDescriptor parser" where
  "supplementary_descriptor B i =
    and_then (descriptor_table B i) (\<lambda>(i, table). Ret (i, Supplementary table))"

definition primary_descriptor :: "'z susp_build_scheme \<Rightarrow> VolumeDescriptor parser" where
  "primary_descriptor B i = and_then (descriptor_table B i) (\<lambda>(i, table). Ret (i, Primary table))"

text \<open>The identifier and version every descriptor carries: \<open>CD001\<close> and 1.\<close>

definition CD001 :: "u8 list" where
  "CD001 = [0x43, 0x44, 0x30, 0x30, 0x31, 1]"

definition volume_descriptor :: "'z susp_build_scheme \<Rightarrow> VolumeDescriptor option parser" where
  "volume_descriptor B i =
    and_then (nom_le_u8 B i) (\<lambda>(i, type_code).
    and_then (nom_tag B CD001 i) (\<lambda>(i, _).
    if type_code = 0 then and_then (boot_record B i) (\<lambda>(i, d). Ret (i, Some d))
    else if type_code = 1 then and_then (primary_descriptor B i) (\<lambda>(i, d). Ret (i, Some d))
    else if type_code = 2 then and_then (supplementary_descriptor B i) (\<lambda>(i, d). Ret (i, Some d))
    else if type_code = 255 then Ret (i, Some VolumeDescriptorSetTerminator)
    else Ret (i, None)))"

definition VolumeDescriptor_parse ::
    "'z susp_build_scheme \<Rightarrow> u8 list \<Rightarrow> (ISOError, VolumeDescriptor option) exec" where
  "VolumeDescriptor_parse B bytes =
    and_then (try_nom (volume_descriptor B bytes)) (\<lambda>(_, d). Ret d)"

section \<open>Lemmas\<close>

context linked_susp begin

lemma VolumeDescriptor_parse_type:
  "VolumeDescriptor_parse B bytes = Ret (Some (Primary t)) \<Longrightarrow> \<exists>r. bytes = 1 # CD001 @ r"
  "VolumeDescriptor_parse B bytes = Ret (Some (Supplementary t)) \<Longrightarrow> \<exists>r. bytes = 2 # CD001 @ r"
  by (auto simp: VolumeDescriptor_parse_def volume_descriptor_def boot_record_def
      primary_descriptor_def supplementary_descriptor_def split: if_splits)

lemma VolumeDescriptor_parse_terminator:
  "VolumeDescriptor_parse B (255 # CD001 @ r) = Ret (Some VolumeDescriptorSetTerminator)"
  by (simp add: VolumeDescriptor_parse_def volume_descriptor_def)

end

end
