(* ===== verification/Parse_Ends.thy ===== *)
theory Parse_Ends
  imports Vol_Desc
begin

text \<open>
  Parsing ends: no parser of the library runs for ever, whatever its input. The repetitions end
  because every round takes bytes from a finite input; \<open>more_spec\<close>, the law of \<open>many1\<close>, is total for
  that reason, so what is shown here is that no parser built from it introduces \<open>Hang\<close>.
\<close>

named_theorems ends

lemma ends_leaf [ends]:
  "take_spec n i \<noteq> Hang" "tag_spec t i \<noteq> Hang" "le_u8_spec i \<noteq> Hang" "rest_spec i \<noteq> Hang"
  "le_spec n i \<noteq> Hang" "be_spec n i \<noteq> Hang" "sig_array s \<noteq> Hang"
  by (auto simp: take_spec_def tag_spec_def le_u8_spec_def le_spec_def be_spec_def sig_array_def
      split: list.splits)

lemma ends_alt: "(\<And>p i. p \<in> set ps \<Longrightarrow> p i \<noteq> Hang) \<Longrightarrow> alt_spec ps i \<noteq> Hang"
proof (induction ps i rule: alt_spec.induct)
  case (3 p q qs i)
  have "p i \<noteq> Hang" by (rule "3.prems") simp
  moreover have "alt_spec (q # qs) i \<noteq> Hang" if "p i = Throw (NomError e)" for e
    by (rule "3.IH" [OF that refl]) (use "3.prems" in auto)
  ultimately show ?case by (cases "p i") (auto split: nom_err.splits)
qed auto

lemma ends_alt_list [ends]: "list_all (\<lambda>p. \<forall>i. p i \<noteq> Hang) ps \<Longrightarrow> alt_spec ps i \<noteq> Hang"
  by (rule ends_alt) (simp add: list_all_iff)

lemma ends_opt [ends]: "(\<And>i. p i \<noteq> Hang) \<Longrightarrow> opt_spec p i \<noteq> Hang"
  by (auto simp: opt_spec_def split: exec.splits nom_err.splits)

lemma ends_more [ends]: "(\<And>i. p i \<noteq> Hang) \<Longrightarrow> more_spec p i \<noteq> Hang"
proof (induction p i rule: more_spec.induct)
  case (1 p i)
  show ?case
  proof (cases "p i")
    case (Ret y)
    then obtain j a where j: "p i = Ret (j, a)" by (cases y) auto
    show ?thesis
      using "1.IH" [OF j refl _ "1.prems"] by (subst more_spec.simps) (auto simp: j and_then_eq_Hang)
  qed (use "1.prems" [of i] in \<open>subst more_spec.simps; auto split: nom_err.splits\<close>)+
qed

lemma ends_many1 [ends]: "(\<And>i. p i \<noteq> Hang) \<Longrightarrow> many1_spec p i \<noteq> Hang"
  using ends_more [of p] by (auto simp: many1_spec_def and_then_eq_Hang)

lemma ends_count [ends]: "(\<And>i. p i \<noteq> Hang) \<Longrightarrow> count_spec p n i \<noteq> Hang"
  by (induction n arbitrary: i) (auto simp: and_then_eq_Hang)

lemma ends_length_data [ends]: "length_data_spec le_u8_spec i \<noteq> Hang"
  by (auto simp: length_data_spec_def and_then_eq_Hang ends_leaf split: if_splits)

lemma ends_word_mul [ends]: "word_mul B a b \<noteq> Hang"
  by (simp add: word_mul_def)

lemma ends_value [ends]: "p i \<noteq> Hang \<Longrightarrow> value_of v p i \<noteq> Hang"
  by (auto simp: value_of_def and_then_eq_Hang)

lemmas ends_simps = sig_version_ok_def and_then_eq_Hang Let_def

context linked begin

lemma ends_both_endian [ends]: "both_endian32 B i \<noteq> Hang" "both_endian16 B i \<noteq> Hang"
  by (simp_all add: both_endian32_eq both_endian16_eq)

lemma ends_date_time [ends]: "date_time B i \<noteq> Hang"
  using no_panic_date_time by (auto simp: no_panic_def returns_def)

lemma ends_ascii_i32 [ends]: "ascii_i32 B n i \<noteq> Hang"
  unfolding ascii_i32_def alt_i32
  by (rule ends_alt)
    (auto simp: ascii_digits_def ends_simps ends split: option.splits sum.splits)

lemma ends_date_time_ascii [ends]: "date_time_ascii B i \<noteq> Hang"
  by (auto simp: date_time_ascii_def date_or_default_eq time_or_default_eq ends_simps ends)

lemma ends_decode_string [ends]: "decode_string B enc i \<noteq> Hang"
  by (rule decode_string_not_Hang)

lemma ends_identifier_string [ends]: "identifier_string B enc i \<noteq> Hang"
  by (auto simp: identifier_string_def ends simp del: alt_spec.simps)

lemma ends_take_str [ends]: "take_str B n i \<noteq> Hang"
  by (auto simp: take_str_def ends_simps ends split: option.splits)

lemma ends_susp_extension [ends]: "susp_extension B i \<noteq> Hang"
  by (auto simp: susp_extension_def ends_simps ends)

lemma ends_parse_sig [ends]: "parse_sig B s i \<noteq> Hang"
  by (auto simp: parse_sig_def ends_simps ends split: option.splits)

lemma ends_susp_entry [ends]:
  "(\<And>d sig v. pd d sig v \<noteq> Hang) \<Longrightarrow> susp_entry B s pd wrap i \<noteq> Hang"
  by (auto simp: susp_entry_def susp_parse_def ends_simps ends)

lemma ends_link_record [ends]: "SymbolicLinkRecord_parse B i \<noteq> Hang"
  by (auto simp: SymbolicLinkRecord_parse_def ends_simps ends split: option.splits)

lemma ends_parse_data [ends]:
  "AlternateName_parse_data B i sig v \<noteq> Hang" "ChildLink_parse_data B i sig v \<noteq> Hang"
  "ContinuationArea_parse_data B i sig v \<noteq> Hang" "PosixTimestamp_parse_data B i sig v \<noteq> Hang"
  "PosixAttributes_parse_data B i sig v \<noteq> Hang" "RelocatedDirectory_parse_data B i sig v \<noteq> Hang"
  "RockRidge_parse_data B i sig v \<noteq> Hang" "SuspIndicator_parse_data B i sig v \<noteq> Hang"
  "Unknown_parse_data i sig v \<noteq> Hang"
  by (auto simp: AlternateName_parse_data_def ChildLink_parse_data_def ContinuationArea_parse_data_def
      PosixTimestamp_parse_data_def PosixAttributes_parse_data_def RelocatedDirectory_parse_data_def
      RockRidge_parse_data_def SuspIndicator_parse_data_def Unknown_parse_data_def ends_simps ends
      split: option.splits prod.splits)

end

context linked_susp begin

lemma ends_parse_lists [ends]:
  "ExtensionsReference_parse_data B i sig v \<noteq> Hang" "SymbolicLink_parse_data B i sig v \<noteq> Hang"
  by (auto simp: ExtensionsReference_parse_data_def SymbolicLink_parse_data_def ends_simps ends
      simp del: alt_spec.simps)

lemma ends_system_use_entry [ends]: "system_use_entry B i \<noteq> Hang"
  unfolding system_use_entry_def alt_sue by (rule ends_alt) (auto simp: ends)

lemma ends_system_use_entries [ends]: "system_use_entries B i \<noteq> Hang"
  unfolding system_use_entries_def many1_sue by (rule ends_many1) (rule ends_system_use_entry)

lemma ends_directory_entry [ends]: "directory_entry B i enc \<noteq> Hang"
  by (auto simp: directory_entry_def ends_simps ends split: if_splits)

lemma ends_character_encoding [ends]: "character_encoding B i \<noteq> Hang"
  by (auto simp: character_encoding_def ends_simps ends simp del: alt_spec.simps split: if_splits)

lemma ends_descriptor_table [ends]: "descriptor_table B i \<noteq> Hang"
  by (auto simp: descriptor_table_def ends_simps ends)

lemma ends_volume_descriptor: "volume_descriptor B i \<noteq> Hang"
  by (auto simp: volume_descriptor_def boot_record_def take_decoded_def primary_descriptor_def
      supplementary_descriptor_def ends_simps ends split: if_splits)

lemma VolumeDescriptor_parse_ends: "VolumeDescriptor_parse B i \<noteq> Hang"
  by (auto simp: VolumeDescriptor_parse_def and_then_eq_Hang ends_volume_descriptor)

lemma DirectoryEntryHeader_parse_ends: "DirectoryEntryHeader_parse B i enc \<noteq> Hang"
  by (auto simp: DirectoryEntryHeader_parse_def and_then_eq_Hang ends)

end

end
