(* ===== verification/Continuation.thy ===== *)
theory Continuation
  imports Iso_Directory Parse_Ends "HOL-Library.Multiset"
begin

text \<open>
  The chain of continuation areas that \<open>read_entry_at\<close> follows. Over an image, what a continuation
  holds is a function of the image. The loop ends when the areas refer to each other without a
  cycle, which a rank shows (several continuation entries may be pending at a time, so the measure
  is a multiset of ranks), and it does not end when an area refers to itself.
\<close>

text \<open>The entries the program takes from the continuation area \<open>cont\<close> of the image: it reads the block and
  parses its first bytes, as many as the area is long, wherever the area begins.\<close>

definition area_of ::
    "'z susp_build_scheme \<Rightarrow> u8 list \<Rightarrow> ContinuationArea \<Rightarrow> (ISOError, SystemUseEntry list) exec" where
  "area_of B img cont =
    (let got = img_at img (unat (block_location cont) * BLOCK_SIZE) BLOCK_SIZE;
         block = got @ drop (length got) BlockBuffer_new in
     and_then (assertion B (length got = 2048 \<or> length got = unat (ce_length cont))) (\<lambda>_.
     and_then (slice_of 0 (unat (ce_length cont)) block) (\<lambda>data.
     and_then (try_nom (system_use_entries B data)) (\<lambda>(_, cont_susp).
     Ret cont_susp))))"

text \<open>The continuation entries of a list.\<close>

definition continuations :: "SystemUseEntry list \<Rightarrow> ContinuationArea list" where
  "continuations susp =
    List.map_filter (\<lambda>e. case e of ContinuationArea c \<Rightarrow> Some c | _ \<Rightarrow> None) susp"

text \<open>The areas of \<open>S\<close> refer to areas of \<open>S\<close> of a smaller rank only.\<close>

definition ranked ::
    "'z susp_build_scheme \<Rightarrow> u8 list \<Rightarrow> ContinuationArea set \<Rightarrow> (ContinuationArea \<Rightarrow> nat) \<Rightarrow> bool" where
  "ranked B img S rk \<longleftrightarrow>
    (\<forall>c \<in> S. \<forall>es. area_of B img c = Ret es \<longrightarrow>
      (\<forall>c' \<in> set (continuations es). c' \<in> S \<and> rk c' < rk c))"

lemma continuations_simps [simp]:
  "continuations [] = []" "continuations (ContinuationArea c # es) = c # continuations es"
  by (simp_all add: continuations_def List.map_filter_simps)

lemma continuations_append [simp]: "continuations (xs @ ys) = continuations xs @ continuations ys"
  by (simp add: continuations_def List.map_filter_def)

lemma remove_continuation_None:
  "remove_continuation susp = (susp', None) \<Longrightarrow> susp' = susp \<and> continuations susp = []"
  by (induction susp arbitrary: susp' rule: remove_continuation.induct)
    (auto simp: continuations_def List.map_filter_simps split: prod.splits)

lemma remove_continuation_Some:
  "remove_continuation susp = (susp', Some c) \<Longrightarrow> continuations susp = c # continuations susp'"
  by (induction susp arbitrary: susp' rule: remove_continuation.induct)
    (auto simp: continuations_def List.map_filter_simps split: prod.splits)

text \<open>What is still to be read, as a multiset of ranks.\<close>

definition pending :: "(ContinuationArea \<Rightarrow> nat) \<Rightarrow> ContinuationArea option \<Rightarrow> SystemUseEntry list \<Rightarrow> nat multiset" where
  "pending rk cont susp =
    image_mset rk (mset (continuations susp)) + (case cont of Some c \<Rightarrow> {#rk c#} | None \<Rightarrow> {#})"

lemma remove_continuation_append:
  "continuations susp = [] \<Longrightarrow> remove_continuation (susp @ es) =
    (case remove_continuation es of (es, cont) \<Rightarrow> (susp @ es, cont))"
proof (induction susp)
  case (Cons e susp)
  then show ?case
    by (cases e) (auto simp: continuations_def List.map_filter_simps split: prod.splits)
qed simp

text \<open>The other entries of a list.\<close>

definition not_ce :: "SystemUseEntry \<Rightarrow> bool" where
  "not_ce e = (case e of ContinuationArea _ \<Rightarrow> False | _ \<Rightarrow> True)"

text \<open>The image holds the entries \<open>es\<close> in the continuation area \<open>c\<close>, as SUSP 5.1 defines it: at the offset
  \<open>ce_offset\<close> of the block \<open>block_location\<close>, within the block, \<open>ce_length\<close> bytes, those after the last
  entry zero.\<close>

definition area_recorded :: "u8 list \<Rightarrow> ContinuationArea \<Rightarrow> SystemUseEntry list \<Rightarrow> bool" where
  "area_recorded img c es \<longleftrightarrow>
    es \<noteq> [] \<and> list_all sue_ok es
    \<and> unat (ce_offset c) + unat (ce_length c) \<le> BLOCK_SIZE
    \<and> (unat (block_location c) + 1) * BLOCK_SIZE \<le> length img
    \<and> (\<exists>k. img_at img (unat (block_location c) * BLOCK_SIZE + unat (ce_offset c)) (unat (ce_length c))
        = concat (map enc_sue es) @ replicate k 0)"

text \<open>The areas reached from a continuation entry, each one at the start of its block and with at most
  one continuation entry of its own, and the entries they hold but for those, in the order of the
  chain and as they are read.\<close>

inductive chain :: "u8 list \<Rightarrow> ContinuationArea option \<Rightarrow> SystemUseEntry list \<Rightarrow> bool"
  for img where
  chain_end: "chain img None []"
| chain_more: "area_recorded img c es \<Longrightarrow> ce_offset c = 0 \<Longrightarrow> continuations es = opt_list cont \<Longrightarrow>
    chain img cont rest \<Longrightarrow> chain img (Some c) (map read_sue (filter not_ce es) @ rest)"

lemma not_ce_simps [simp]: "not_ce (ContinuationArea c) = False"
  by (simp add: not_ce_def)

lemma continuations_Cons:
  "continuations (e # es) = (if not_ce e then [] else case e of ContinuationArea c \<Rightarrow> [c]) @ continuations es"
  by (cases e) (simp_all add: continuations_def not_ce_def List.map_filter_simps)

lemma continuations_filter [simp]: "continuations (filter not_ce es) = []"
  by (induction es) (simp_all add: continuations_Cons)

lemma not_ce_read [simp]: "not_ce (read_sue e) = not_ce e"
  by (cases e) (simp_all add: not_ce_def read_sue_def)

lemma filter_read [simp]: "filter not_ce (map read_sue es) = map read_sue (filter not_ce es)"
  by (induction es) simp_all

lemma continuations_read [simp]: "continuations (map read_sue es) = continuations es"
proof (induction es)
  case (Cons e es)
  then show ?case by (cases e) (simp_all add: continuations_Cons not_ce_def read_sue_def)
qed simp

lemma remove_continuation_filter:
  "continuations es = opt_list cont \<Longrightarrow> remove_continuation es = (filter not_ce es, cont)"
proof (induction es)
  case Nil
  then show ?case by (cases cont) (simp_all add: opt_list_def)
next
  case (Cons e es)
  show ?case
  proof (cases "not_ce e")
    case True
    with Cons show ?thesis by (cases e) (simp_all add: continuations_Cons not_ce_def)
  next
    case False
    then obtain c where e: "e = ContinuationArea c" by (cases e) (auto simp: not_ce_def)
    with Cons.prems have "cont = Some c" "continuations es = []" by (cases cont; simp add: opt_list_def)+
    moreover have "filter not_ce xs = xs" if "continuations xs = []" for xs
      using that by (induction xs) (auto simp: continuations_Cons not_ce_def split: SystemUseEntry.splits if_splits)
    ultimately show ?thesis using e by simp
  qed
qed

locale image_directory = linked_susp B + image_reader rd inv img
  for B :: "'z susp_build_scheme" and rd :: "'r reader" and inv :: "'r \<Rightarrow> bool" and img :: "u8 list"
begin

lemma read_continuation_area:
  assumes "inv r"
  shows "\<exists>r'. inv r' \<and> read_continuation B rd cont r = (area_of B img cont, r')"
proof -
  have "unat (block_location cont) < 2 ^ 53"
    using unsigned_less [of "block_location cont", where 'a = nat] by simp
  then obtain r' where "inv r'" "FileRef_read_at rd r BlockBuffer_new (unat (block_location cont)) =
      (Ret (length (img_at img (unat (block_location cont) * BLOCK_SIZE) (length BlockBuffer_new))),
       img_at img (unat (block_location cont) * BLOCK_SIZE) (length BlockBuffer_new)
         @ drop (length (img_at img (unat (block_location cont) * BLOCK_SIZE) (length BlockBuffer_new)))
             BlockBuffer_new, r')"
    by (rule FileRef_read_imageE [OF assms])
  then show ?thesis
    by (intro exI [of _ r']) (simp add: read_continuation_def area_of_def Let_def BlockBuffer_new_def)
qed

lemma area_of_ends: "area_of B img cont \<noteq> Hang"
  by (auto simp: area_of_def Let_def and_then_eq_Hang ends)

lemma continuation_step_area:
  assumes "inv r"
  shows "\<exists>r'. inv r' \<and> continuation_step B rd cont susp r =
    (and_then (area_of B img cont) (\<lambda>es. Ret (remove_continuation (susp @ es))), r')"
  using read_continuation_area [OF assms, of cont] by (auto simp: continuation_step_def)

lemma pending_step:
  assumes "ranked B img S rk" and "c \<in> S" and "area_of B img c = Ret es"
    and rem: "remove_continuation (susp @ es) = (susp', cont')"
  shows "(pending rk cont' susp', pending rk (Some c) susp) \<in> mult less_than"
proof -
  have "pending rk cont' susp' = image_mset rk (mset (continuations (susp @ es)))"
    using rem remove_continuation_None [of "susp @ es" susp'] remove_continuation_Some [of "susp @ es" susp']
    by (cases cont') (auto simp: pending_def simp del: continuations_append)
  also have "\<dots> = image_mset rk (mset (continuations susp)) + image_mset rk (mset (continuations es))" by simp
  finally have "pending rk cont' susp' = \<dots>" .
  moreover have "(image_mset rk (mset (continuations susp)) + image_mset rk (mset (continuations es)),
      image_mset rk (mset (continuations susp)) + {#rk c#}) \<in> mult less_than"
    by (rule one_step_implies_mult) (use assms(1-3) in \<open>auto simp: ranked_def\<close>)
  ultimately show ?thesis by (simp add: pending_def)
qed

lemma remove_continuation_subset:
  assumes "ranked B img S rk" and "c \<in> S" and "area_of B img c = Ret es"
    and rem: "remove_continuation (susp @ es) = (susp', cont')" and "set (continuations susp) \<subseteq> S"
  shows "set (continuations susp') \<union> set_option cont' \<subseteq> S"
proof -
  have "set (continuations (susp @ es)) = set (continuations susp') \<union> set_option cont'"
    using rem remove_continuation_None [of "susp @ es" susp'] remove_continuation_Some [of "susp @ es" susp']
    by (cases cont') (auto simp del: continuations_append)
  then show ?thesis using assms(1-3,5) by (auto simp: ranked_def)
qed

lemma continuation_loop_total:
  assumes rk: "ranked B img S rk" and "inv r" and "set (continuations susp) \<union> set_option cont \<subseteq> S"
  shows "\<exists>res r'. continuation_loop B rd cont susp r = Some (res, r') \<and> inv r' \<and> res \<noteq> Hang"
proof -
  have "wf (mult less_than)" by (intro wf_mult) simp
  from this assms(2,3) show ?thesis
  proof (induction "pending rk cont susp" arbitrary: cont susp r rule: wf_induct_rule)
    case less
    show ?case
    proof (cases cont)
      case None
      then show ?thesis using less.prems by (subst continuation_loop.simps) simp
    next
      case (Some c)
      have c: "c \<in> S" "set (continuations susp) \<subseteq> S" using less.prems(2) Some by simp_all
      obtain r1 where step: "inv r1" "continuation_step B rd c susp r =
          (and_then (area_of B img c) (\<lambda>es. Ret (remove_continuation (susp @ es))), r1)"
        using continuation_step_area [OF less.prems(1)] by blast
      show ?thesis
      proof (cases "area_of B img c")
        case (Ret es)
        obtain susp' cont' where rem: "remove_continuation (susp @ es) = (susp', cont')" by fastforce
        have "(pending rk cont' susp', pending rk cont susp) \<in> mult less_than"
          unfolding Some by (rule pending_step [OF rk c(1) Ret rem])
        from less.hyps [OF this step(1) remove_continuation_subset [OF rk c(1) Ret rem c(2)]] show ?thesis
          by (subst continuation_loop.simps) (simp add: Some step(2) Ret rem)
      qed (use step area_of_ends in \<open>(subst continuation_loop.simps, simp add: Some)+\<close>)
    qed
  qed
qed

lemma area_of_recorded:
  assumes "area_recorded img c es" and "ce_offset c = 0"
  shows "area_of B img c = Ret (map read_sue es)"
proof -
  let ?pos = "unat (block_location c) * BLOCK_SIZE" and ?n = "unat (ce_length c)"
  obtain k where es: "es \<noteq> []" "list_all sue_ok es" and n: "?n \<le> 2048" and len: "?pos + 2048 \<le> length img"
    and area: "img_at img ?pos ?n = concat (map enc_sue es) @ replicate k 0"
    using assms by (auto simp: area_recorded_def)
  have got: "length (img_at img ?pos 2048) = 2048" using len by (simp add: length_img_at)
  moreover have "take ?n (img_at img ?pos 2048) = img_at img ?pos ?n" using n by (simp add: img_at_def min_def)
  ultimately have "slice_of 0 ?n (img_at img ?pos 2048) = (Ret (concat (map enc_sue es) @ replicate k 0) :: (ISOError, _) exec)"
    using n area by (simp add: slice_of_def)
  then show ?thesis
    using system_use_entries_enc [OF es, of k] got by (simp add: area_of_def BlockBuffer_new_def Let_def)
qed

lemma continuation_loop_chain:
  assumes "chain img cont es" and "inv r" and "continuations susp = []"
  shows "\<exists>r'. inv r' \<and> continuation_loop B rd cont susp r = Some (Ret (susp @ es), r')"
  using assms
proof (induction arbitrary: susp r rule: chain.induct)
  case chain_end
  then show ?case by (subst continuation_loop.simps) simp
next
  case (chain_more c es cont rest)
  obtain r1 where step: "inv r1" "continuation_step B rd c susp r =
      (and_then (area_of B img c) (\<lambda>es. Ret (remove_continuation (susp @ es))), r1)"
    using continuation_step_area [OF chain_more.prems(1)] by blast
  have rem: "remove_continuation (susp @ map read_sue es) = (susp @ map read_sue (filter not_ce es), cont)"
    using remove_continuation_append [OF chain_more.prems(2)] chain_more.hyps(3)
    by (simp add: remove_continuation_filter)
  have "continuations (susp @ map read_sue (filter not_ce es)) = []" using chain_more.prems(2) by simp
  from chain_more.IH [OF step(1) this] show ?case
    by (subst continuation_loop.simps)
      (simp add: step(2) area_of_recorded [OF chain_more.hyps(1,2)] rem)
qed

lemma continuation_loop_cycle:
  assumes cycle: "\<And>c. c \<in> S \<Longrightarrow> \<exists>es c'. area_of B img c = Ret es \<and> continuations es = [c'] \<and> c' \<in> S"
    and "c \<in> S" and "inv r" and "continuations susp = []"
  shows "continuation_loop B rd (Some c) susp r = None"
proof (rule ccontr)
  have "B' = B \<longrightarrow> rd' = rd \<longrightarrow> cont \<in> Some ` S \<longrightarrow> inv r \<longrightarrow> continuations susp = [] \<longrightarrow> False"
    if "continuation_loop B' rd' cont susp r = Some y" for B' rd' cont susp r y
    using _ that
  proof (rule continuation_loop.raw_induct, intro impI)
    fix loop and B' :: "'z susp_build_scheme" and rd' :: "'r reader" and cont susp r y
    assume IH: "\<And>B' rd' cont susp r y. loop B' rd' cont susp r = Some y \<Longrightarrow>
        B' = B \<longrightarrow> rd' = rd \<longrightarrow> cont \<in> Some ` S \<longrightarrow> inv r \<longrightarrow> continuations susp = [] \<longrightarrow> False"
      and body: "(case cont of None \<Rightarrow> Some (Ret susp, r)
        | Some current_cont \<Rightarrow>
            (case continuation_step B' rd' current_cont susp r of
               (Ret (susp, cont), r) \<Rightarrow> loop B' rd' cont susp r
             | (Throw e, r) \<Rightarrow> Some (Throw e, r)
             | (Panic, r) \<Rightarrow> Some (Panic, r)
             | (Hang, r) \<Rightarrow> Some (Hang, r))) = Some y"
      and eqs: "B' = B" "rd' = rd" and cont: "cont \<in> Some ` S" and ok: "inv r" "continuations susp = []"
    obtain c es c' where c: "cont = Some c" "area_of B img c = Ret es" "continuations es = [c']" "c' \<in> S"
      using cont cycle by blast
    obtain r' where r': "inv r'" "continuation_step B rd c susp r =
        (and_then (area_of B img c) (\<lambda>es. Ret (remove_continuation (susp @ es))), r')"
      using continuation_step_area [OF ok(1)] by blast
    obtain susp' cont' where rem: "remove_continuation (susp @ es) = (susp', cont')" by fastforce
    have next': "cont' = Some c'" "continuations susp' = []"
      using rem remove_continuation_None [of "susp @ es" susp'] remove_continuation_Some [of "susp @ es" susp']
        c(3) ok(2) by (cases cont'; simp)+
    have "loop B rd cont' susp' r' = Some y" using body by (simp add: eqs c(1,2) r'(2) rem)
    from IH [OF this] next' c(4) r'(1) show False by blast
  qed
  moreover assume "continuation_loop B rd (Some c) susp r \<noteq> None"
  ultimately show False using assms(2-4) by blast
qed

end

interpretation cursor_image: image_directory "std_susp_build asserts big checks"
  "blanket_read_at (std_susp_build asserts big checks) cursor_io" "\<lambda>c. cur_data c = img" img
  by unfold_locales

section \<open>The image as its own reader\<close>

text \<open>A reader without a state, to state what is recorded in an image.\<close>

definition image_read_at :: "u8 list \<Rightarrow> unit reader" where
  "image_read_at img r buf lba =
    (let got = img_at img (lba * BLOCK_SIZE) (length buf)
     in (Ret (length got), got @ drop (length got) buf, ()))"

interpretation pure_image: image_reader "image_read_at img" "\<lambda>_. True" img
  by unfold_locales (simp add: image_read_at_def Let_def)

lemma continuation_loop_readers:
  fixes B :: "'z susp_build_scheme" and rd1 :: "'r reader" and rd2 :: "'s reader"
  assumes "continuation_loop B rd1 cont susp r1 = Some (x, r1')"
    and i1: "image_directory B rd1 inv1 img" and i2: "image_directory B rd2 inv2 img"
    and "inv1 r1" and "inv2 r2"
  shows "inv1 r1' \<and> (\<exists>r2'. inv2 r2' \<and> continuation_loop B rd2 cont susp r2 = Some (x, r2'))"
proof -
  have "B' = B \<longrightarrow> rd' = rd1 \<longrightarrow> inv1 r \<longrightarrow> inv2 r2 \<longrightarrow> inv1 (snd y) \<and>
      (\<exists>r2'. inv2 r2' \<and> continuation_loop B rd2 cont susp r2 = Some (fst y, r2'))"
    if "continuation_loop B' rd' cont susp r = Some y" for B' rd' cont susp r y r2
    using _ that
  proof (rule continuation_loop.raw_induct [where P = "\<lambda>B' rd' cont susp r y. \<forall>r2.
      B' = B \<longrightarrow> rd' = rd1 \<longrightarrow> inv1 r \<longrightarrow> inv2 r2 \<longrightarrow> inv1 (snd y) \<and>
      (\<exists>r2'. inv2 r2' \<and> continuation_loop B rd2 cont susp r2 = Some (fst y, r2'))", THEN spec], intro allI impI)
    fix loop and B' :: "'z susp_build_scheme" and rd' :: "'r reader" and cont susp r y r2
    assume IH: "\<And>B' rd' cont susp r y. loop B' rd' cont susp r = Some y \<Longrightarrow> \<forall>r2.
        B' = B \<longrightarrow> rd' = rd1 \<longrightarrow> inv1 r \<longrightarrow> inv2 r2 \<longrightarrow> inv1 (snd y) \<and>
        (\<exists>r2'. inv2 r2' \<and> continuation_loop B rd2 cont susp r2 = Some (fst y, r2'))"
      and body: "(case cont of None \<Rightarrow> Some (Ret susp, r)
        | Some current_cont \<Rightarrow>
            (case continuation_step B' rd' current_cont susp r of
               (Ret (susp, cont), r) \<Rightarrow> loop B' rd' cont susp r
             | (Throw e, r) \<Rightarrow> Some (Throw e, r)
             | (Panic, r) \<Rightarrow> Some (Panic, r)
             | (Hang, r) \<Rightarrow> Some (Hang, r))) = Some y"
      and eqs: "B' = B" "rd' = rd1" and ok: "inv1 r" "inv2 r2"
    show "inv1 (snd y) \<and> (\<exists>r2'. inv2 r2' \<and> continuation_loop B rd2 cont susp r2 = Some (fst y, r2'))"
    proof (cases cont)
      case None
      then show ?thesis using body ok by (subst continuation_loop.simps) auto
    next
      case (Some c)
      obtain s1 where s1: "inv1 s1" "continuation_step B rd1 c susp r =
          (and_then (area_of B img c) (\<lambda>es. Ret (remove_continuation (susp @ es))), s1)"
        using image_directory.continuation_step_area [OF i1 ok(1)] by blast
      obtain s2 where s2: "inv2 s2" "continuation_step B rd2 c susp r2 =
          (and_then (area_of B img c) (\<lambda>es. Ret (remove_continuation (susp @ es))), s2)"
        using image_directory.continuation_step_area [OF i2 ok(2)] by blast
      show ?thesis
      proof (cases "area_of B img c")
        case (Ret es)
        obtain susp' cont' where rem: "remove_continuation (susp @ es) = (susp', cont')" by fastforce
        have "loop B rd1 cont' susp' s1 = Some y" using body by (simp add: eqs Some s1(2) Ret rem)
        from IH [OF this] s1(1) s2(1) show ?thesis
          by (subst continuation_loop.simps) (simp add: Some s2(2) Ret rem)
      qed (use body s1 s2 in \<open>(subst continuation_loop.simps, auto simp: Some eqs)+\<close>)
    qed
  qed
  from this [OF assms(1), of r2] assms(4,5) show ?thesis by simp
qed

context image_directory begin

lemma pure_image_directory: "image_directory B (image_read_at img) (\<lambda>_. True) img"
  using linked_susp_axioms pure_image.image_reader_axioms by (simp add: image_directory_def)

lemma pull_continuations_image:
  assumes "inv r"
  shows "\<exists>r'. inv r' \<and> pull_continuations B rd cont susp r =
    (fst (pull_continuations B (image_read_at img) cont susp ()), r')"
proof (cases "continuation_loop B rd cont susp r")
  case None
  have "continuation_loop B (image_read_at img) cont susp () = None"
  proof (rule ccontr)
    assume "continuation_loop B (image_read_at img) cont susp () \<noteq> None"
    then obtain x r' where "continuation_loop B (image_read_at img) cont susp () = Some (x, r')" by auto
    from continuation_loop_readers [OF this pure_image_directory image_directory_axioms _ assms] None
    show False by auto
  qed
  with None assms show ?thesis by (auto simp: pull_continuations_def)
next
  case (Some y)
  obtain x r' where y: "y = (x, r')" by fastforce
  from continuation_loop_readers [OF Some [unfolded y] image_directory_axioms pure_image_directory assms, of "()"]
  show ?thesis using Some y by (auto simp: pull_continuations_def)
qed

end

section \<open>Properties\<close>

text \<open>C22: the continuation areas of a record are read in the order of their chain: over an image that
  records entries in each area, as SUSP 5.1 lays an area out, with at most one further continuation
  entry in each and an end to the chain, the loop ends, and what it gives are the entries of the
  record followed by those of each area in turn, the continuation entries left out. This holds for areas
  that begin at the start of their block (\<open>chain\<close> asks for \<open>ce_offset = 0\<close>); the program reads any other
  area from the start of its block too, which is reported as a bug. A time stamp recorded west of Greenwich
  is read with the offset 0.\<close>

theorem pull_continuations_chain:
  assumes "linked_susp B" and "image_reader rd ok img" and "ok r"
    and "chain img cont es" and "continuations susp = []"
  shows "\<exists>r'. ok r' \<and> pull_continuations B rd cont susp r = (Ret (susp @ es), r')"
proof -
  have "image_directory B rd ok img" using assms(1,2) by (simp add: image_directory_def)
  from image_directory.continuation_loop_chain [OF this assms(4,3,5)] show ?thesis
    by (auto simp: pull_continuations_def)
qed

text \<open>C23: the loop over the continuation areas ends, whatever they hold and however many continuation
  entries are pending at a time, as long as the references between the areas that can be
  reached go down in some rank, that is, have no cycle.\<close>

theorem pull_continuations_ends:
  assumes "linked_susp B" and "image_reader rd ok img" and "ok r"
    and "ranked B img S rk" and "set (continuations susp) \<union> set_option cont \<subseteq> S"
  shows "\<exists>res r'. ok r' \<and> res \<noteq> Hang \<and> pull_continuations B rd cont susp r = (res, r')"
proof -
  have "image_directory B rd ok img" using assms(1,2) by (simp add: image_directory_def)
  from image_directory.continuation_loop_total [OF this assms(4,3,5)] show ?thesis
    by (fastforce simp: pull_continuations_def)
qed

text \<open>C24: it does not end on a cycle: if every area of a set has one continuation entry and that
  refers to an area of the set, as in an image whose continuation area refers to itself, reading an
  entry that continues there runs for ever.\<close>

theorem pull_continuations_cycle:
  assumes "linked_susp B" and "image_reader rd ok img" and "ok r"
    and "\<And>c. c \<in> S \<Longrightarrow> \<exists>es c'. area_of B img c = Ret es \<and> continuations es = [c'] \<and> c' \<in> S"
    and "c \<in> S" and "continuations susp = []"
  shows "fst (pull_continuations B rd (Some c) susp r) = Hang"
proof -
  have "image_directory B rd ok img" using assms(1,2) by (simp add: image_directory_def)
  from image_directory.continuation_loop_cycle [OF this assms(4,5,3,6)] show ?thesis
    by (simp add: pull_continuations_def)
qed

section \<open>Examples\<close>

definition demo_cont :: ContinuationArea where
  "demo_cont = \<lparr>block_location = 0, ce_offset = 0, ce_length = 4\<rparr>"

definition demo_area :: "u8 list" where
  "demo_area = enc_sue (RelocatedDirectory True) @ replicate 2044 0"

definition demo_loop :: ContinuationArea where
  "demo_loop = \<lparr>block_location = 0, ce_offset = 0, ce_length = 28\<rparr>"

definition demo_loop_area :: "u8 list" where
  "demo_loop_area = enc_sue (ContinuationArea demo_loop) @ replicate 2020 0"

abbreviation (input) demo_rd :: "cursor reader" where
  "demo_rd \<equiv> blanket_read_at (std_susp_build True False True) cursor_io"

lemma demo_area_recorded:
  "area_recorded demo_area demo_cont [RelocatedDirectory True]"
  "area_recorded demo_loop_area demo_loop [ContinuationArea demo_loop]"
  by (auto simp: area_recorded_def demo_area_def demo_loop_area_def demo_cont_def demo_loop_def sue_ok_def img_at_def
      length_enc_sue intro!: exI [of _ 0])

lemma demo_area_of: "area_of (std_susp_build True False True) demo_area demo_cont = Ret [RelocatedDirectory True]"
  using cursor_image.area_of_recorded [OF demo_area_recorded(1)] by (simp add: demo_cont_def read_sue_def)

lemma demo_loop_area_of:
  "area_of (std_susp_build True False True) demo_loop_area demo_loop = Ret [ContinuationArea demo_loop]"
  using cursor_image.area_of_recorded [OF demo_area_recorded(2)] by (simp add: demo_loop_def read_sue_def)

theorem pull_continuations_chain_witness:
  "\<exists>r'. pull_continuations (std_susp_build True False True) demo_rd (Some demo_cont) [ChildLink 5]
      \<lparr>cur_data = demo_area, cur_pos = 0\<rparr> = (Ret [ChildLink 5, RelocatedDirectory True], r')"
proof -
  have "chain demo_area (Some demo_cont) (map read_sue (filter not_ce [RelocatedDirectory True]) @ [])"
    by (rule chain_more [OF demo_area_recorded(1), where cont = None])
      (simp_all add: chain_end demo_cont_def opt_list_def continuations_def List.map_filter_simps)
  then have "chain demo_area (Some demo_cont) [RelocatedDirectory True]" by (simp add: not_ce_def read_sue_def)
  from pull_continuations_chain [OF std_susp.linked_susp_axioms [where asserts = True and big = False and checks = True] cursor.image_reader_axioms [where B = "std_susp_build True False True"] _ this,
      of "\<lparr>cur_data = demo_area, cur_pos = 0\<rparr>" "[ChildLink 5]"]
  show ?thesis by (auto simp: continuations_def List.map_filter_simps)
qed

theorem pull_continuations_ends_witness:
  "\<exists>res r'. res \<noteq> Hang \<and> pull_continuations (std_susp_build True False True) demo_rd (Some demo_cont) []
      \<lparr>cur_data = demo_area, cur_pos = 0\<rparr> = (res, r')"
proof -
  have "ranked (std_susp_build True False True) demo_area {demo_cont} (\<lambda>_. 0)"
    by (simp add: ranked_def demo_area_of continuations_def List.map_filter_simps)
  from pull_continuations_ends [OF std_susp.linked_susp_axioms cursor.image_reader_axioms [where B = "std_susp_build True False True"] _ this,
      of "\<lparr>cur_data = demo_area, cur_pos = 0\<rparr>" "[]" "Some demo_cont"]
  show ?thesis by auto
qed

theorem pull_continuations_cycle_witness:
  "fst (pull_continuations (std_susp_build True False True) demo_rd (Some demo_loop) []
      \<lparr>cur_data = demo_loop_area, cur_pos = 0\<rparr>) = Hang"
  by (rule pull_continuations_cycle [OF std_susp.linked_susp_axioms cursor.image_reader_axioms,
        where S = "{demo_loop}"]) (auto simp: demo_loop_area_of)

end
