(* ===== verification/Directory_Facts.thy ===== *)
theory Directory_Facts
  imports Continuation
begin

text \<open>
  What holds of directories: the number of blocks, the progress of the iteration, reading a record as
  a function of the image (\<open>entry_at\<close>), and lookup by name as the first match of the walk over the
  records (\<open>dir_walk\<close>).
\<close>

section \<open>The number of blocks\<close>

lemma unat_add_small:
  "unat a + unat b < 2 ^ LENGTH('w) \<Longrightarrow> unat (a + b) = unat a + unat b" for a b :: "'w::len word"
  by (simp add: unat_word_ariths)

lemma block_count_ceil:
  assumes "unat (extent_length (dir_header self)) + 2048 < 2 ^ 32"
  shows "\<exists>c. block_count B self = Ret c
    \<and> unat c = (unat (extent_length (dir_header self)) + 2047) div 2048"
proof -
  let ?n = "extent_length (dir_header self)"
  have add: "unat (?n + 2048) = unat ?n + 2048"
    using assms by (intro trans [OF unat_add_small]) simp_all
  have "unat (?n + 2048 - 1) = unat ?n + 2047"
    using add by (subst unat_sub) (simp_all add: word_le_nat_alt)
  then have "unat ((?n + 2048 - 1) div 2048) = (unat ?n + 2047) div 2048"
    by (simp add: unat_div)
  moreover have "block_count B self = Ret ((?n + 2048 - 1) div 2048)"
    using assms add by (simp add: block_count_def word_add_def word_sub_def Let_def)
  ultimately show ?thesis by blast
qed

section \<open>Progress\<close>

text \<open>\<open>read_at\<close> is given a slice: it cannot change its length.\<close>

locale slice_reader =
  fixes rd :: "'r reader"
  assumes read_length: "rd r buf lba = (res, buf', r') \<Longrightarrow> length buf' = length buf"

interpretation cursor_slice: slice_reader "blanket_read_at B cursor_io"
  by unfold_locales
    (auto simp: blanket_read_at_def cursor_io_def u64_mul_def Let_def split: if_splits)

locale directory_reader = linked_susp B + slice_reader rd
  for B :: "'z susp_build_scheme" and rd :: "'r reader"

interpretation cursor_directory:
  directory_reader "std_susp_build asserts big checks" "blanket_read_at (std_susp_build asserts big checks) cursor_io"
  by unfold_locales

lemma next_entry_offset_Some:
  assumes "next_entry_offset B self block n p = (Ret (Some off) :: ('e, _) exec)" and "q < p" and "q < 2048"
  shows "2048 * n + q < off \<and> off < 2048 * 2 ^ 32"
proof -
  obtain c :: u32 where "(off = 2048 * (n + 1) \<and> n + 1 < unat c) \<or> (off = 2048 * n + p \<and> n < unat c \<and> p < 2015)"
    using assms(1) by (auto simp: next_entry_offset_def Let_def split: if_splits)
  moreover have "unat c < 2 ^ 32" using unsigned_less [of c, where 'a = nat] by simp
  ultimately show ?thesis using assms(2,3) by auto
qed

lemma finish_entry_progress:
  assumes "finish_entry B self block n q header identifier susp = Ret (e, Some off)"
    and "0 < unat (de_length header)" and "q < 2048"
  shows "2048 * n + q < off \<and> off < 2048 * 2 ^ 32"
proof -
  from assms(1) have "next_entry_offset B self block n (q + unat (de_length header)) =
      (Ret (Some off) :: (ISOError, _) exec)"
    by (auto simp: finish_entry_def Let_def)
  then show ?thesis by (rule next_entry_offset_Some) (use assms(2,3) in simp_all)
qed

context linked_susp begin

lemma parse_entry_progress:
  assumes "parse_entry B rd self block n q r = (Ret (e, Some off), r')"
    and "length block = 2048" and "q < 2048"
  shows "2048 * n + q < off \<and> off < 2048 * 2 ^ 32"
proof -
  let ?enc = "de_character_encoding (dir_header self)"
  from assms obtain header nm susp rest susp' where
    parsed: "directory_entry B (drop q block) ?enc = Ret (rest, header, nm, susp)" and
    fin: "finish_entry B self block n q header nm susp' = Ret (e, Some off)"
    by (auto simp: parse_entry_def DirectoryEntryHeader_parse_def Let_def
        split: exec.splits prod.splits option.splits)
  have "length (drop q block) < 2 ^ 63" using assms(2) by simp
  then have "34 \<le> unat (de_length header)" by (rule directory_entry_RetD(1) [OF parsed])
  then show ?thesis using assms(3) by (intro finish_entry_progress [OF fin]) simp_all
qed

end

context directory_reader begin

lemma load_dir_block_length:
  "load_dir_block rd self n block num r = (res, block', num', r') \<Longrightarrow> length block' = length block"
  by (auto simp: load_dir_block_def FileRef_read_at_def split: if_splits prod.splits exec.splits
      dest: read_length)

lemma read_entry_at_length:
  "read_entry_at B rd self block num off r = (res, block', num', r') \<Longrightarrow> length block' = length block"
  by (auto simp: read_entry_at_def Let_def split: prod.splits exec.splits dest: load_dir_block_length)

lemma read_entry_at_progress:
  assumes "read_entry_at B rd self block num off r = (Ret (e, Some off'), block', num', r')"
    and "length block = 2048"
  shows "off < off' \<and> off' < 2048 * 2 ^ 32"
proof -
  from assms(1) obtain block1 num1 r1 where
    load: "load_dir_block rd self (off div 2048) block num r = (Ret (), block1, num1, r1)" and
    parse: "parse_entry B rd self block1 (off div 2048) (off mod 2048) r1 = (Ret (e, Some off'), r')"
    by (auto simp: read_entry_at_def Let_def split: prod.splits exec.splits)
  have "length block1 = 2048" using load_dir_block_length [OF load] assms(2) by simp
  from parse_entry_progress [OF parse this] show ?thesis by simp
qed

end

section \<open>The iterator\<close>

text \<open>The state of an iterator over a directory that has not reached its end before \<open>off\<close>.\<close>

definition it_ok :: "ISODirectoryIterator \<Rightarrow> bool" where
  "it_ok it \<longleftrightarrow> length (it_block it) = 2048
     \<and> (\<forall>off. next_offset it = Some off \<longrightarrow> off < 2048 * 2 ^ 32)"

definition it_left :: "ISODirectoryIterator \<Rightarrow> nat" where
  "it_left it = (case next_offset it of None \<Rightarrow> 0 | Some off \<Rightarrow> Suc (2048 * 2 ^ 32 - off))"

lemma it_ok_contents [simp]: "it_ok (contents dir)"
  by (simp add: it_ok_def contents_def BlockBuffer_new_def)

context directory_reader begin

lemma iterator_next_ok:
  assumes "it_ok it" and "iterator_next B rd it r = (Some res, it', r')"
  shows "it_ok it' \<and> it_directory it' = it_directory it \<and> (\<forall>e. res = Ret e \<longrightarrow> it_left it' < it_left it)"
proof -
  from assms(2) obtain off res' block num where off: "next_offset it = Some off" and
    read: "read_entry_at B rd (it_directory it) (it_block it) (it_block_num it) off r = (res', block, num, r')"
    by (auto simp: iterator_next_def Let_def split: option.splits prod.splits exec.splits)
  have len: "length (it_block it) = 2048" "length block = 2048"
    using assms(1) read_entry_at_length [OF read] by (simp_all add: it_ok_def)
  show ?thesis
  proof (cases res')
    case (Ret x)
    then obtain e nxt where x: "res' = Ret (e, nxt)" by (cases x) auto
    have it': "it' = it\<lparr>it_block := block, it_block_num := num, next_offset := nxt\<rparr>"
      using assms(2) by (simp add: iterator_next_def off read x Let_def)
    show ?thesis
    proof (cases nxt)
      case None
      then show ?thesis using len by (simp add: it' it_ok_def it_left_def off)
    next
      case (Some off')
      then have "off < off' \<and> off' < 2048 * 2 ^ 32"
        using read x len(1) by (intro read_entry_at_progress) simp_all
      with Some len show ?thesis by (auto simp: it' it_ok_def it_left_def off)
    qed
  qed (use assms off read len in \<open>auto simp: iterator_next_def Let_def it_ok_def\<close>)
qed

lemma find_loop_total:
  assumes "it_ok it"
  shows "\<exists>res r'. find_loop B rd name it r = Some (res, r')"
  using assms
proof (induction "it_left it" arbitrary: it r rule: less_induct)
  case less
  obtain out it' r' where step: "iterator_next B rd it r = (out, it', r')" by (metis prod_cases3)
  show ?case
  proof (cases out)
    case None
    then show ?thesis using step by (subst find_loop.simps) simp
  next
    case (Some res)
    note ok = iterator_next_ok [OF less.prems step [unfolded Some]]
    show ?thesis
    proof (cases res)
      case (Ret e)
      have "\<exists>res r''. find_loop B rd name it' r' = Some (res, r'')"
        using ok Ret by (intro less.hyps) simp_all
      then show ?thesis using step Some Ret by (subst find_loop.simps) simp
    qed (use step Some in \<open>(subst find_loop.simps, simp)+\<close>)
  qed
qed

end

section \<open>A directory of an image\<close>

text \<open>What is recorded at an offset of the directory: the block read afresh, no cache and no reader
  state.\<close>

definition dir_block_at :: "u8 list \<Rightarrow> ISODirectory \<Rightarrow> u64 \<Rightarrow> u8 list" where
  "dir_block_at img dir n = img_at img ((unat (extent_loc (dir_header dir)) + n) * BLOCK_SIZE) BLOCK_SIZE"

definition entry_at ::
    "'z susp_build_scheme \<Rightarrow> u8 list \<Rightarrow> ISODirectory \<Rightarrow> u64 \<Rightarrow>
     (ISOError, DirectoryEntry \<times> u64 option) exec" where
  "entry_at B img dir off =
    (let block = dir_block_at img dir (off div 2048) in
     if length block \<noteq> 2048 then Throw (ReadSize (length block))
     else fst (parse_entry B (image_read_at img) dir block (off div 2048) (off mod 2048) ()))"

text \<open>The walk over the records from an offset on: the entries, and how it ends.\<close>

inductive dir_walk ::
    "'z susp_build_scheme \<Rightarrow> u8 list \<Rightarrow> ISODirectory \<Rightarrow> u64 option \<Rightarrow> DirectoryEntry list \<Rightarrow>
     (ISOError, unit) exec \<Rightarrow> bool"
  for B img dir where
  walk_end: "dir_walk B img dir None [] (Ret ())"
| walk_fail: "(\<And>x. entry_at B img dir off \<noteq> Ret x) \<Longrightarrow>
    dir_walk B img dir (Some off) [] (and_then (entry_at B img dir off) (\<lambda>_. Ret ()))"
| walk_step: "entry_at B img dir off = Ret (e, nxt) \<Longrightarrow> dir_walk B img dir nxt es fin \<Longrightarrow>
    dir_walk B img dir (Some off) (e # es) fin"

inductive_cases walk_NoneE: "dir_walk B img dir None es fin"
inductive_cases walk_SomeE: "dir_walk B img dir (Some off) es fin"

text \<open>The cache of an iterator (or of any caller of \<open>read_entry_at\<close>) agrees with the image.\<close>

definition dir_cache_ok :: "u8 list \<Rightarrow> ISODirectory \<Rightarrow> u8 list \<Rightarrow> u64 option \<Rightarrow> bool" where
  "dir_cache_ok img dir block num \<longleftrightarrow>
    length block = 2048 \<and> (\<forall>n. num = Some n \<longrightarrow> block = dir_block_at img dir n)"

lemma dir_cache_ok_new [simp]: "dir_cache_ok img dir BlockBuffer_new None"
  by (simp add: dir_cache_ok_def BlockBuffer_new_def)

context linked_susp begin

lemma entry_at_progress:
  assumes "entry_at B img dir off = Ret (e, Some off')"
  shows "off < off' \<and> off' < 2048 * 2 ^ 32"
proof -
  let ?block = "dir_block_at img dir (off div 2048)"
  from assms have "length ?block = 2048"
    and "fst (parse_entry B (image_read_at img) dir ?block (off div 2048) (off mod 2048) ()) = Ret (e, Some off')"
    by (auto simp: entry_at_def Let_def split: if_splits)
  then obtain r' where
    "parse_entry B (image_read_at img) dir ?block (off div 2048) (off mod 2048) () = (Ret (e, Some off'), r')"
    by (metis prod.collapse)
  from parse_entry_progress [OF this] \<open>length ?block = 2048\<close> show ?thesis by simp
qed

lemma dir_walk_exists:
  assumes "\<And>off. nxt = Some off \<Longrightarrow> off < 2048 * 2 ^ 32"
  shows "\<exists>es fin. dir_walk B img dir nxt es fin"
  using assms
proof (induction "case nxt of None \<Rightarrow> 0 | Some off \<Rightarrow> Suc (2048 * 2 ^ 32 - off)" arbitrary: nxt rule: less_induct)
  case less
  show ?case
  proof (cases nxt)
    case None
    then show ?thesis by (auto intro: walk_end)
  next
    case (Some off)
    show ?thesis
    proof (cases "\<exists>e nxt'. entry_at B img dir off = Ret (e, nxt')")
      case True
      then obtain e nxt' where e: "entry_at B img dir off = Ret (e, nxt')" by blast
      have "\<exists>es fin. dir_walk B img dir nxt' es fin"
      proof (rule less.hyps)
        show "(case nxt' of None \<Rightarrow> 0 | Some off \<Rightarrow> Suc (2048 * 2 ^ 32 - off)) <
            (case nxt of None \<Rightarrow> 0 | Some off \<Rightarrow> Suc (2048 * 2 ^ 32 - off))"
          using entry_at_progress [of img dir off e] e Some less.prems [OF Some] by (cases nxt') auto
      next
        fix off' assume "nxt' = Some off'"
        then show "off' < 2048 * 2 ^ 32" using entry_at_progress [of img dir off e off'] e by simp
      qed
      with e Some show ?thesis by (auto intro: walk_step)
    next
      case False
      then have "entry_at B img dir off \<noteq> Ret x" for x by (cases x) auto
      from walk_fail [OF this] show ?thesis unfolding Some by blast
    qed
  qed
qed

end

lemma dir_walk_unique:
  "dir_walk B img dir nxt es fin \<Longrightarrow> dir_walk B img dir nxt es' fin' \<Longrightarrow> es' = es \<and> fin' = fin"
proof (induction arbitrary: es' fin' rule: dir_walk.induct)
  case walk_end
  then show ?case by (auto elim: walk_NoneE)
next
  case (walk_fail off)
  from walk_fail.prems walk_fail.hyps show ?case by (auto elim!: walk_SomeE)
next
  case (walk_step off e nxt es fin)
  from walk_step.prems show ?case
    by (rule walk_SomeE) (use walk_step.hyps(1) walk_step.IH in auto)
qed

context image_directory begin

lemma load_dir_block_image:
  assumes "inv r" and "dir_cache_ok img dir block num" and "n < 2 ^ 52"
  shows "\<exists>block' num' r'. inv r' \<and> dir_cache_ok img dir block' num' \<and>
    load_dir_block rd dir n block num r =
      (if length (dir_block_at img dir n) = 2048 then Ret ()
       else Throw (ReadSize (length (dir_block_at img dir n))), block', num', r') \<and>
    (length (dir_block_at img dir n) = 2048 \<longrightarrow> block' = dir_block_at img dir n)"
proof (cases "num = Some n")
  case True
  then show ?thesis using assms(1,2)
    by (intro exI [of _ block] exI [of _ num] exI [of _ r]) (auto simp: load_dir_block_def dir_cache_ok_def)
next
  case False
  let ?lba = "unat (extent_loc (dir_header dir)) + n" and ?blk = "dir_block_at img dir n"
  have len: "length block = 2048" using assms(2) by (simp add: dir_cache_ok_def)
  have "?lba < 2 ^ 53"
    using assms(3) unsigned_less [of "extent_loc (dir_header dir)", where 'a = nat] by simp
  then obtain r' where r': "inv r'"
    "FileRef_read_at rd r block ?lba = (Ret (length ?blk), ?blk @ drop (length ?blk) block, r')"
    by (rule FileRef_read_imageE [OF assms(1), of ?lba block]) (simp add: dir_block_at_def len)
  have "length ?blk \<le> 2048" by (simp add: dir_block_at_def length_img_at)
  then show ?thesis using False r' len
    by (intro exI [of _ "?blk @ drop (length ?blk) block"]
        exI [of _ "if length ?blk = 2048 then Some n else None"] exI [of _ r'])
      (auto simp: load_dir_block_def dir_cache_ok_def)
qed

lemma parse_entry_image:
  assumes "inv r"
  shows "\<exists>r'. inv r' \<and> parse_entry B rd dir block n q r =
    (fst (parse_entry B (image_read_at img) dir block n q ()), r')"
proof (cases "and_then (slice_of q (length block) block) (\<lambda>data.
    DirectoryEntryHeader_parse B data (de_character_encoding (dir_header dir)))")
  case (Ret x)
  obtain header nm susp0 where x: "x = (header, nm, susp0)" by (cases x)
  obtain susp cont where sc:
    "(case susp0 of Some susp \<Rightarrow> split_continuation susp | None \<Rightarrow> ([], None)) = (susp, cont)" by fastforce
  obtain r' where "inv r'" "pull_continuations B rd cont susp r =
      (fst (pull_continuations B (image_read_at img) cont susp ()), r')"
    using pull_continuations_image [OF assms] by blast
  then show ?thesis
    by (intro exI [of _ r']) (simp add: parse_entry_def Ret x sc Let_def case_prod_unfold)
qed (use assms in \<open>auto simp: parse_entry_def\<close>)

lemma read_entry_at_image:
  assumes "inv r" and "dir_cache_ok img dir block num" and "off < 2 ^ 63"
  shows "\<exists>block' num' r'. inv r' \<and> dir_cache_ok img dir block' num' \<and>
    read_entry_at B rd dir block num off r = (entry_at B img dir off, block', num', r')"
proof -
  let ?n = "off div 2048" and ?blk = "dir_block_at img dir (off div 2048)"
  have n: "?n < 2 ^ 52" using assms(3) by (simp add: less_mult_imp_div_less)
  obtain block' num' r1 where load: "inv r1" "dir_cache_ok img dir block' num'"
    "load_dir_block rd dir ?n block num r =
      (if length ?blk = 2048 then Ret () else Throw (ReadSize (length ?blk)), block', num', r1)"
    "length ?blk = 2048 \<longrightarrow> block' = ?blk"
    using load_dir_block_image [OF assms(1,2) n] by blast
  show ?thesis
  proof (cases "length ?blk = 2048")
    case True
    then have blk: "block' = ?blk" using load(4) by simp
    obtain r' where "inv r'" "parse_entry B rd dir ?blk ?n (off mod 2048) r1 =
        (fst (parse_entry B (image_read_at img) dir ?blk ?n (off mod 2048) ()), r')"
      using parse_entry_image [OF load(1)] by blast
    then show ?thesis using load True
      by (intro exI [of _ block'] exI [of _ num'] exI [of _ r'])
        (simp add: read_entry_at_def entry_at_def Let_def blk)
  next
    case False
    then show ?thesis using load
      by (intro exI [of _ block'] exI [of _ num'] exI [of _ r1])
        (simp add: read_entry_at_def entry_at_def Let_def)
  qed
qed

text \<open>An iterator over a directory of the image.\<close>

definition iter_ok :: "ISODirectory \<Rightarrow> ISODirectoryIterator \<Rightarrow> bool" where
  "iter_ok dir it \<longleftrightarrow> it_directory it = dir \<and> dir_cache_ok img dir (it_block it) (it_block_num it)
     \<and> (\<forall>off. next_offset it = Some off \<longrightarrow> off < 2048 * 2 ^ 32)"

lemma iterator_next_image:
  assumes "inv r" and "iter_ok dir it" and "next_offset it = Some off"
  shows "\<exists>it' r'. inv r' \<and> iterator_next B rd it r =
      (Some (and_then (entry_at B img dir off) (\<lambda>(e, _). Ret e)), it', r')
    \<and> iter_ok dir it' \<and> (\<forall>e nxt. entry_at B img dir off = Ret (e, nxt) \<longrightarrow> next_offset it' = nxt)"
proof -
  have bound: "off < 2048 * 2 ^ 32" using assms(2,3) by (simp add: iter_ok_def)
  then have off: "off < 2 ^ 63" by simp
  obtain block num r' where read: "inv r'" "dir_cache_ok img dir block num"
    "read_entry_at B rd dir (it_block it) (it_block_num it) off r = (entry_at B img dir off, block, num, r')"
    using read_entry_at_image [OF assms(1) _ off, of dir] assms(2) by (metis iter_ok_def)
  have dir: "it_directory it = dir" using assms(2) by (simp add: iter_ok_def)
  show ?thesis
  proof (cases "entry_at B img dir off")
    case (Ret x)
    then obtain e nxt where x: "entry_at B img dir off = Ret (e, nxt)" by (cases x) auto
    have "\<forall>off'. nxt = Some off' \<longrightarrow> off' < 2048 * 2 ^ 32" using entry_at_progress x by blast
    then show ?thesis using read assms(3) x dir
      by (intro exI [of _ "it\<lparr>it_block := block, it_block_num := num, next_offset := nxt\<rparr>"] exI [of _ r'])
        (auto simp: iterator_next_def iter_ok_def Let_def)
  qed (use read assms(3) bound dir in
      \<open>auto simp: iterator_next_def iter_ok_def Let_def intro!: exI [of _ "it\<lparr>it_block := block, it_block_num := num\<rparr>"]\<close>)
qed

end

text \<open>The entries a name stands for: not an associated file (bit 2 of the flags, ECMA-119 9.1.6), and the
  same name up to the case of ASCII letters.\<close>

definition named :: "ustr \<Rightarrow> DirectoryEntry \<Rightarrow> bool" where
  "named name e \<longleftrightarrow> \<not> bit (file_flags (entry_header e)) 2
    \<and> map to_ascii_lowercase (entry_identifier e) = map to_ascii_lowercase name"

lemma flag_4: "(w :: u8) AND 4 = 4 \<longleftrightarrow> bit w 2"
  using word_flag_bit [of 2 w] by simp

context linked begin

lemma name_matches_named: "name_matches B = named"
  by (intro ext) (simp add: name_matches_def named_def flag_4 eq_ignore_ascii_case_def)

end

text \<open>What a lookup makes of a walk: the first match, else the way the walk ends.\<close>

definition find_result ::
    "ustr \<Rightarrow> DirectoryEntry list \<Rightarrow> (ISOError, unit) exec \<Rightarrow> (ISOError, DirectoryEntry option) exec" where
  "find_result name es fin =
    (case List.find (named name) es of
       Some e \<Rightarrow> Ret (Some e)
     | None \<Rightarrow> and_then fin (\<lambda>_. Ret None))"

context image_directory begin

lemma find_loop_walk:
  assumes "dir_walk B img dir nxt es fin" and "inv r" and "iter_ok dir it" and "next_offset it = nxt"
  shows "\<exists>r'. inv r' \<and> find_loop B rd name it r = Some (find_result name es fin, r')"
  using assms
proof (induction arbitrary: it r rule: dir_walk.induct)
  case walk_end
  then show ?case by (subst find_loop.simps) (simp add: iterator_next_def find_result_def)
next
  case (walk_fail off)
  from iterator_next_image [OF walk_fail.prems] obtain it' r' where "inv r'"
    "iterator_next B rd it r = (Some (and_then (entry_at B img dir off) (\<lambda>(e, _). Ret e)), it', r')" by blast
  then show ?case using walk_fail.hyps
    by (subst find_loop.simps) (cases "entry_at B img dir off"; auto simp: find_result_def)
next
  case (walk_step off e nxt es fin)
  from iterator_next_image [OF walk_step.prems] walk_step.hyps(1) obtain it' r' where next':
    "inv r'" "iterator_next B rd it r = (Some (Ret e), it', r')" "iter_ok dir it'" "next_offset it' = nxt"
    by auto
  from walk_step.IH [OF next'(1,3,4)] show ?case
    using next'(1,2) by (subst find_loop.simps) (auto simp: find_result_def name_matches_named)
qed

lemma find_entry_walk:
  assumes "dir_walk B img dir (Some 0) es fin" and "inv r"
  shows "\<exists>r'. inv r' \<and> find_entry B rd dir name r = (find_result name es fin, r')"
  using find_loop_walk [OF assms, of "contents dir" name]
  by (auto simp: find_entry_def contents_def iter_ok_def)

end

text \<open>The resolution of a path from an entry on.\<close>

inductive resolves ::
    "'z susp_build_scheme \<Rightarrow> u8 list \<Rightarrow> DirectoryEntry \<Rightarrow> ustr list \<Rightarrow>
     (ISOError, DirectoryEntry option) exec \<Rightarrow> bool"
  for B img where
  here: "resolves B img entry [] (Ret (Some entry))"
| not_directory: "(\<And>dir. entry \<noteq> Directory dir) \<Longrightarrow> resolves B img entry (seg # segs) (Ret None)"
| descend: "dir_walk B img dir (Some 0) es fin \<Longrightarrow> find_result seg es fin = Ret (Some entry) \<Longrightarrow>
    resolves B img entry segs res \<Longrightarrow> resolves B img (Directory dir) (seg # segs) res"
| stop: "dir_walk B img dir (Some 0) es fin \<Longrightarrow> (\<And>entry. find_result seg es fin \<noteq> Ret (Some entry)) \<Longrightarrow>
    resolves B img (Directory dir) (seg # segs) (find_result seg es fin)"

context image_directory begin

lemma find_segments_resolves:
  assumes "resolves B img entry segs res" and "inv r"
  shows "\<exists>r'. inv r' \<and> find_segments B rd entry segs r = (res, r')"
  using assms
proof (induction arbitrary: r rule: resolves.induct)
  case (not_directory entry seg segs)
  then show ?case by (cases entry) auto
next
  case (descend dir es fin seg entry segs res)
  from find_entry_walk [OF descend.hyps(1) descend.prems, of seg] descend.hyps(2)
  obtain r1 where "inv r1" "find_entry B rd dir seg r = (Ret (Some entry), r1)" by auto
  with descend.IH [of r1] show ?case by simp
next
  case (stop dir es fin seg segs)
  from find_entry_walk [OF stop.hyps(1) stop.prems, of seg]
  obtain r1 where r1: "inv r1" "find_entry B rd dir seg r = (find_result seg es fin, r1)" by auto
  show ?case
  proof (cases "find_result seg es fin")
    case (Ret x)
    then have "x = None" using stop.hyps(2) by (cases x) auto
    with Ret r1 show ?thesis by simp
  qed (use r1 in simp_all)
qed auto

lemma resolves_exists: "\<exists>res. resolves B img entry segs res"
proof (induction segs arbitrary: entry)
  case Nil
  then show ?case by (blast intro: here)
next
  case (Cons seg segs)
  show ?case
  proof (cases entry)
    case (Directory dir)
    obtain es fin where walk: "dir_walk B img dir (Some 0) es fin"
      using dir_walk_exists [of "Some 0" img dir] by auto
    show ?thesis
    proof (cases "\<exists>e. find_result seg es fin = Ret (Some e)")
      case True
      with walk Directory Cons.IH show ?thesis by (blast intro: descend)
    next
      case False
      with stop [OF walk] Directory show ?thesis by blast
    qed
  qed (auto intro: not_directory)
qed

end

section \<open>Paths\<close>

lemma find_segments_append:
  "find_segments B rd entry (xs @ ys) r =
    (case find_segments B rd entry xs r of
       (Ret (Some entry), r) \<Rightarrow> find_segments B rd entry ys r
     | (res, r) \<Rightarrow> (res, r))"
proof (induction xs arbitrary: entry r)
  case (Cons x xs)
  show ?case
  proof (cases entry)
    case (Directory dir)
    obtain res r1 where "find_entry B rd dir x r = (res, r1)" by fastforce
    then show ?thesis using Directory Cons.IH
      by (cases res) (auto split: option.splits)
  qed simp_all
qed simp

lemma path_segments_append: "path_segments (p @ 47 # q) = path_segments p @ path_segments q"
  by (simp add: path_segments_def split_on_append)

lemma path_segments_simps [simp]: "path_segments [] = []" "path_segments (47 # p) = path_segments p"
  using path_segments_append [of "[]" p] by (simp_all add: path_segments_def)

end
