(* ===== verification/File_Mode.thy ===== *)
theory File_Mode
  imports Susp_Facts
begin

text \<open>
  The text of a POSIX file mode (\<open>impl Display for PosixFileMode\<close> in \<open>cdfs/src/parse/susp.rs\<close>): the
  masks of the source against the bits of the mode.
\<close>

lemma flag_or: "(w :: u32) AND (a OR b) = a OR b \<longleftrightarrow> w AND a = a \<and> w AND b = b"
  by (metis (no_types, lifting) and.commute bit.conj_disj_distrib or.idem word_ao_absorbs(1) word_ao_absorbs(2) bit.conj_disj_distrib2)

lemma mode_bits:
  fixes w :: u32
  shows "w AND 0x1000 = 0x1000 \<longleftrightarrow> bit w 12" "w AND 0x2000 = 0x2000 \<longleftrightarrow> bit w 13"
    "w AND 0x4000 = 0x4000 \<longleftrightarrow> bit w 14" "w AND 0x8000 = 0x8000 \<longleftrightarrow> bit w 15"
    "w AND 0x800 = 0x800 \<longleftrightarrow> bit w 11" "w AND 0x400 = 0x400 \<longleftrightarrow> bit w 10"
    "w AND 0x100 = 0x100 \<longleftrightarrow> bit w 8" "w AND 0x80 = 0x80 \<longleftrightarrow> bit w 7" "w AND 0x40 = 0x40 \<longleftrightarrow> bit w 6"
    "w AND 0x20 = 0x20 \<longleftrightarrow> bit w 5" "w AND 0x10 = 0x10 \<longleftrightarrow> bit w 4" "w AND 8 = 8 \<longleftrightarrow> bit w 3"
    "w AND 4 = 4 \<longleftrightarrow> bit w 2" "w AND 2 = 2 \<longleftrightarrow> bit w 1" "w AND 1 = 1 \<longleftrightarrow> bit w 0"
  using word_flag_bit [of 12 w] word_flag_bit [of 13 w] word_flag_bit [of 14 w] word_flag_bit [of 15 w] word_flag_bit [of 11 w]
    word_flag_bit [of 10 w] word_flag_bit [of 8 w] word_flag_bit [of 7 w] word_flag_bit [of 6 w] word_flag_bit [of 5 w] word_flag_bit [of 4 w]
    word_flag_bit [of 3 w] word_flag_bit [of 2 w] word_flag_bit [of 1 w] word_flag_bit [of 0 w] by simp_all

lemma type_bits:
  fixes w :: u32
  shows "w AND 0xC000 = 0xC000 \<longleftrightarrow> bit w 15 \<and> bit w 14" "w AND 0xA000 = 0xA000 \<longleftrightarrow> bit w 15 \<and> bit w 13"
    "w AND 0x6000 = 0x6000 \<longleftrightarrow> bit w 14 \<and> bit w 13"
  using flag_or [where w = w and a = "0x8000" and b = "0x4000"] flag_or [where w = w and a = "0x8000" and b = "0x2000"]
    flag_or [where w = w and a = "0x4000" and b = "0x2000"]
  by (simp_all add: mode_bits)

lemma high_bits: "p < 2 ^ 12 \<Longrightarrow> 12 \<le> n \<Longrightarrow> \<not> bit (p :: u32) n"
  using less_mask_eq [of p 12] bit_and_iff [of p "mask 12" n] by (auto simp: bit_simps)

definition file_types :: "(u32 \<times> char) list" where
  "file_types = [(TYPE_SOCKET, CHR ''s''), (TYPE_SYMLINK, CHR ''l''), (TYPE_FILE, CHR ''-''),
     (TYPE_BLOCK_DEV, CHR ''b''), (TYPE_DIRECTORY, CHR ''d''), (TYPE_CHAR_DEV, CHR ''c''), (TYPE_PIPE, CHR ''p'')]"

definition triad :: "bool \<Rightarrow> bool \<Rightarrow> bool \<Rightarrow> bool \<Rightarrow> string" where
  "triad r w x s =
    (if r then ''r'' else ''-'') @ (if w then ''w'' else ''-'')
    @ (if x then (if s then ''S'' else ''x'') else if s then ''s'' else ''-'')"

definition type_letter :: "u32 \<Rightarrow> char option" where
  "type_letter w =
    (if bit w 15 \<and> bit w 14 then Some (CHR ''s'') else if bit w 15 \<and> bit w 13 then Some (CHR ''l'')
     else if bit w 15 then Some (CHR ''-'') else if bit w 14 \<and> bit w 13 then Some (CHR ''b'')
     else if bit w 14 then Some (CHR ''d'') else if bit w 13 then Some (CHR ''c'')
     else if bit w 12 then Some (CHR ''p'') else None)"

lemma fmt_bits:
  assumes "linked B" and "type_letter w = Some c"
  shows "PosixFileMode_fmt B w = Ret (c # triad (bit w 8) (bit w 7) (bit w 6) (bit w 11)
      @ triad (bit w 5) (bit w 4) (bit w 3) (bit w 10) @ triad (bit w 2) (bit w 1) (bit w 0) False)"
  using assms(2) unfolding PosixFileMode_fmt_def Let_def linked.contains32 [OF assms(1)] mode_bits type_bits
  by (auto simp: type_letter_def triad_def simp del: and_then_eq_Ret split: if_splits)
lemma file_type_bits:
  assumes "(t, c) \<in> set file_types"
  shows "type_letter t = Some c" and "k < 12 \<Longrightarrow> \<not> bit t k"
proof -
  show "type_letter t = Some c"
    using assms by (auto simp: file_types_def type_letter_def bit_numeral_rec)
  have "t AND mask 12 = 0" using assms by (auto simp: file_types_def mask_numeral)
  moreover assume "k < 12"
  ultimately show "\<not> bit t k" using bit_and_iff [of t "mask 12" k] by (simp add: bit_mask_iff)
qed

lemma mode_parts:
  assumes "(t, c) \<in> set file_types" and "p < 2 ^ 12"
  shows "type_letter (t OR p) = Some c" and "k < 12 \<Longrightarrow> bit (t OR p) k \<longleftrightarrow> bit p k"
proof -
  have "type_letter (t OR p) = type_letter t"
    using high_bits [OF assms(2), of 12] high_bits [OF assms(2), of 13] high_bits [OF assms(2), of 14]
      high_bits [OF assms(2), of 15] by (simp add: type_letter_def bit_or_iff)
  then show "type_letter (t OR p) = Some c" using file_type_bits(1) [OF assms(1)] by simp
  show "bit (t OR p) k \<longleftrightarrow> bit p k" if "k < 12" using file_type_bits(2) [OF assms(1) that] by (simp add: bit_or_iff)
qed

text \<open>C33: the text of a file mode: for each of the seven file types and all permission bits, the letter
  of the type as \<open>ls\<close> prints it, then three groups of three, bit by bit; an executable with the set
  user or set group bit is shown with \<open>S\<close> and one without execute permission with \<open>s\<close>, the other way
  round than \<open>ls\<close>.\<close>

theorem file_mode_display:
  assumes "linked B" and "(t, c) \<in> set file_types" and "p < 2 ^ 12"
  shows "PosixFileMode_fmt B (t OR p) =
    Ret (c # triad (bit p 8) (bit p 7) (bit p 6) (bit p 11) @ triad (bit p 5) (bit p 4) (bit p 3) (bit p 10)
      @ triad (bit p 2) (bit p 1) (bit p 0) False)"
  using fmt_bits [OF assms(1) mode_parts(1) [OF assms(2,3)]] by (simp add: mode_parts(2) [OF assms(2,3)])

theorem file_mode_display_witness:
  "PosixFileMode_fmt (std_susp_build True False True) 0x41ED = (Ret ''drwxr-xr-x'' :: (nat, string) exec)
    \<and> PosixFileMode_fmt (std_susp_build True False True) 0x89ED = (Ret ''-rwSr-xr-x'' :: (nat, string) exec)"
  using file_mode_display [OF std_susp.linked_axioms [where asserts = True and big = False and checks = True],
      of TYPE_DIRECTORY "CHR ''d''" "0x1ED"]
    file_mode_display [OF std_susp.linked_axioms [where asserts = True and big = False and checks = True],
      of TYPE_FILE "CHR ''-''" "0x9ED"]
  by (simp add: file_types_def triad_def bit_numeral_rec)
end
