(* ===== verification/Metadata_Spec.thy ===== *)
theory Metadata_Spec
  imports Continuation File_Mode
begin

text \<open>
  What the system use entries of a record say of its entry (RRIP 4.1): the alternate name, the
  attributes, the target of a symbolic link, the extensions and the time stamps, as functions of the
  list of entries that know nothing of the folds of \<open>ISODirectory::read_entry_at\<close>; and the entry that
  a record stands for. The lemmas show that the program computes them.
\<close>

abbreviation (input) names_of :: "SystemUseEntry list \<Rightarrow> AlternateName list" where
  "names_of \<equiv> List.map_filter (\<lambda>e. case e of AlternateName name \<Rightarrow> Some name | _ \<Rightarrow> None)"

abbreviation (input) times_of :: "SystemUseEntry list \<Rightarrow> PosixTimestamp list" where
  "times_of \<equiv> List.map_filter (\<lambda>e. case e of PosixTimestamp t \<Rightarrow> Some t | _ \<Rightarrow> None)"

abbreviation (input) links_of :: "SystemUseEntry list \<Rightarrow> SymbolicLink list" where
  "links_of \<equiv> List.map_filter (\<lambda>e. case e of SymbolicLink l \<Rightarrow> Some l | _ \<Rightarrow> None)"

abbreviation (input) attributes_of :: "SystemUseEntry list \<Rightarrow> PosixAttributes list" where
  "attributes_of \<equiv> List.map_filter (\<lambda>e. case e of PosixAttributes a \<Rightarrow> Some a | _ \<Rightarrow> None)"

abbreviation (input) child_links_of :: "SystemUseEntry list \<Rightarrow> ChildLink list" where
  "child_links_of \<equiv> List.map_filter (\<lambda>e. case e of ChildLink l \<Rightarrow> Some l | _ \<Rightarrow> None)"

abbreviation (input) extensions_of :: "SystemUseEntry list \<Rightarrow> SuspExtension list list" where
  "extensions_of \<equiv>
    List.map_filter (\<lambda>e. case e of ExtensionsReference er \<Rightarrow> Some (er_extensions er) | _ \<Rightarrow> None)"

section \<open>Pieces\<close>

text \<open>A list up to and with the first element that is not continued.\<close>

definition pieces :: "('a \<Rightarrow> bool) \<Rightarrow> 'a list \<Rightarrow> 'a list" where
  "pieces f xs = takeWhile f xs @ take 1 (dropWhile f xs)"

lemma take_while_inclusive_pieces: "take_while_inclusive_spec f xs = pieces f xs"
  by (induction xs) (auto simp: pieces_def)

lemma pieces_Nil [simp]: "pieces f [] = []"
  by (simp add: pieces_def)

lemma pieces_prefix: "\<forall>x \<in> set xs. f x \<Longrightarrow> \<not> f y \<Longrightarrow> pieces f (xs @ y # ys) = xs @ [y]"
  by (simp add: pieces_def)

lemma pieces_eq_Nil [simp]: "pieces f xs = [] \<longleftrightarrow> xs = []"
  by (cases xs) (simp_all add: pieces_def)

lemma set_pieces: "set (pieces f xs) \<subseteq> set xs"
  by (auto simp: pieces_def dest: set_takeWhileD in_set_takeD set_dropWhileD)

section \<open>Alternate names\<close>

definition alt_name_of :: "SystemUseEntry list \<Rightarrow> ustr option" where
  "alt_name_of susp =
    (if names_of susp = [] then None
     else Some (concat (map an_name (pieces (\<lambda>n. bit (an_flags n) 0) (names_of susp)))))"

lemma foldl_names:
  "foldl (\<lambda>acc name. Some (unwrap_or acc [] @ an_name name)) (Some s) ns = Some (s @ concat (map an_name ns))"
  by (induction ns arbitrary: s) auto

lemma foldl_names_None:
  "foldl (\<lambda>acc name. Some (unwrap_or acc [] @ an_name name)) None ns =
    (if ns = [] then None else Some (concat (map an_name ns)))"
  by (cases ns) (simp_all add: foldl_names)

context linked_susp begin

lemma susp_alt_name_eq: "susp_alt_name B susp = alt_name_of susp"
proof -
  have flag: "bits8_contains B f AlternateName_CONTINUE \<longleftrightarrow> bit f 0" for f
    by (simp add: and_one_eq bit_0 odd_iff_mod_2_eq_one)
  show ?thesis
    unfolding susp_alt_name_def alt_name_of_def take_while_nm flag take_while_inclusive_pieces foldl_names_None
    by simp
qed

end

section \<open>Time stamps\<close>

definition last_of :: "'a option list \<Rightarrow> 'a option" where
  "last_of xs = foldl (\<lambda>acc x. case x of Some y \<Rightarrow> Some y | None \<Rightarrow> acc) None xs"

definition timestamps_of :: "SystemUseEntry list \<Rightarrow> PosixTimestamp" where
  "timestamps_of susp =
    \<lparr>ts_access = last_of (map ts_access (times_of susp)),
     ts_attributes = last_of (map ts_attributes (times_of susp)), ts_backup = None,
     ts_creation = last_of (map ts_creation (times_of susp)), ts_effective = None, ts_expiration = None,
     ts_modify = last_of (map ts_modify (times_of susp))\<rparr>"

lemma merge_timestamp_fields [simp]:
  "ts_creation (merge_timestamp a t) = (case ts_creation t of Some y \<Rightarrow> Some y | None \<Rightarrow> ts_creation a)"
  "ts_modify (merge_timestamp a t) = (case ts_modify t of Some y \<Rightarrow> Some y | None \<Rightarrow> ts_modify a)"
  "ts_access (merge_timestamp a t) = (case ts_access t of Some y \<Rightarrow> Some y | None \<Rightarrow> ts_access a)"
  "ts_attributes (merge_timestamp a t) = (case ts_attributes t of Some y \<Rightarrow> Some y | None \<Rightarrow> ts_attributes a)"
  "ts_backup (merge_timestamp a t) = ts_backup a" "ts_expiration (merge_timestamp a t) = ts_expiration a"
  "ts_effective (merge_timestamp a t) = ts_effective a"
  by (simp_all add: merge_timestamp_def Let_def split: option.splits)

lemma foldl_field:
  assumes "\<And>a t. field (merge_timestamp a t) = (case field t of Some y \<Rightarrow> Some y | None \<Rightarrow> field a)"
  shows "field (foldl merge_timestamp a ts) =
    foldl (\<lambda>acc x. case x of Some y \<Rightarrow> Some y | None \<Rightarrow> acc) (field a) (map field ts)"
  by (induction ts arbitrary: a) (simp_all add: assms)

lemma foldl_kept:
  assumes "\<And>a t. field (merge_timestamp a t) = field a"
  shows "field (foldl merge_timestamp a ts) = field a"
  by (induction ts arbitrary: a) (simp_all add: assms)

lemma susp_timestamps_eq: "susp_timestamps susp = timestamps_of susp"
proof -
  let ?ts = "times_of susp" and ?d = PosixTimestamp_default
  have none: "ts_creation ?d = None" "ts_modify ?d = None" "ts_access ?d = None" "ts_attributes ?d = None"
    "ts_backup ?d = None" "ts_expiration ?d = None" "ts_effective ?d = None"
    by (simp_all add: PosixTimestamp_default_def)
  show ?thesis
    using foldl_field [of ts_creation ?d ?ts] foldl_field [of ts_modify ?d ?ts] foldl_field [of ts_access ?d ?ts]
      foldl_field [of ts_attributes ?d ?ts] foldl_kept [of ts_backup ?d ?ts] foldl_kept [of ts_expiration ?d ?ts]
      foldl_kept [of ts_effective ?d ?ts]
    by (intro PosixTimestamp.equality) (simp_all add: susp_timestamps_def timestamps_of_def last_of_def none)
qed

section \<open>Link targets\<close>

text \<open>The flags of a component of a link (RRIP 4.1.3.1): bit 0 continues its name in the next component,
  bit 1 stands for the current directory, bit 2 for the parent, bit 3 for the root.\<close>

abbreviation (input) is_root :: "SymbolicLinkRecord \<Rightarrow> bool" where
  "is_root c \<equiv> bit (sl_flags c) 3"

definition component_text :: "SymbolicLinkRecord \<Rightarrow> ustr" where
  "component_text c =
    (if bit (sl_flags c) 1 then lit ''.'' else if bit (sl_flags c) 2 then lit ''..'' else sl_component c)"

definition component_ok :: "SymbolicLinkRecord \<Rightarrow> bool" where
  "component_ok c \<longleftrightarrow>
    (if bit (sl_flags c) 1 \<or> bit (sl_flags c) 2 \<or> bit (sl_flags c) 3 then sl_component c = []
     else sl_component c \<noteq> [] \<and> 47 \<notin> set (sl_component c))"

fun slashed :: "ustr list \<Rightarrow> ustr" where
  "slashed [] = []"
| "slashed [c] = c"
| "slashed (c # cs) = c @ 47 # slashed cs"

text \<open>The components after the last root, with slashes between them, and one in front if there is a
  root.\<close>

definition link_target :: "SymbolicLinkRecord list \<Rightarrow> ustr" where
  "link_target cs =
    (if \<exists>c \<in> set cs. is_root c then [47] else [])
    @ slashed (map component_text (rev (takeWhile (\<lambda>c. \<not> is_root c) (rev cs))))"

definition components_of :: "SystemUseEntry list \<Rightarrow> SymbolicLinkRecord list" where
  "components_of susp = concat (map sl_records (pieces should_continue (links_of susp)))"

definition links_ok :: "SystemUseEntry list \<Rightarrow> bool" where
  "links_ok susp \<longleftrightarrow>
    list_all (\<lambda>l. sl_records l \<noteq> []) (pieces should_continue (links_of susp))
    \<and> list_all component_ok (components_of susp)"

definition plain :: "ustr \<Rightarrow> bool" where
  "plain c \<longleftrightarrow> c \<noteq> [] \<and> 47 \<notin> set c"

lemma plain_component: "component_ok c \<Longrightarrow> \<not> is_root c \<Longrightarrow> plain (component_text c)"
  by (auto simp: component_ok_def component_text_def plain_def lit_def split: if_splits)

lemma slashed_snoc: "slashed (cs @ [c]) = (if cs = [] then c else slashed cs @ 47 # c)"
  by (induction cs rule: slashed.induct) auto

lemma slashed_plain:
  "list_all plain cs \<Longrightarrow> cs \<noteq> [] \<Longrightarrow> slashed cs \<noteq> [] \<and> last (slashed cs) \<noteq> 47"
  by (induction cs rule: slashed.induct) (auto simp: plain_def dest: last_in_set)

lemma path_join_slashed:
  assumes "list_all plain as" and "plain t"
  shows "path_join ((if root then [47] else []) @ slashed as) t = (if root then [47] else []) @ slashed (as @ [t])"
proof -
  have "\<not> is_absolute t" using assms(2) by (cases t) (simp_all add: plain_def is_absolute_def)
  then show ?thesis
    using slashed_plain [OF assms(1)] by (cases "as = []") (simp_all add: path_join_def slashed_snoc)
qed

lemma path_join_absolute: "is_absolute r \<Longrightarrow> path_join p r = r"
  by (simp add: path_join_def)

lemma path_join_assoc: "path_join (path_join p q) r = path_join p (path_join q r)"
  by (auto simp: path_join_def is_absolute_def hd_append)

lemma foldl_path_join: "foldl path_join (path_join p q) ts = path_join p (foldl path_join q ts)"
  by (induction ts arbitrary: q) (simp_all add: path_join_assoc)

definition component_path_text :: "SymbolicLinkRecord \<Rightarrow> ustr" where
  "component_path_text c = (if is_root c then [47] else component_text c)"

lemma foldl_link_target:
  "list_all component_ok cs \<Longrightarrow> foldl path_join [] (map component_path_text cs) = link_target cs"
proof (induction cs rule: rev_induct)
  case (snoc c cs)
  then have IH: "foldl path_join [] (map component_path_text cs) = link_target cs" and c: "component_ok c"
    by simp_all
  show ?case
  proof (cases "is_root c")
    case True
    then show ?thesis
      by (simp add: component_path_text_def path_join_absolute is_absolute_def link_target_def)
  next
    case False
    let ?as = "map component_text (rev (takeWhile (\<lambda>c. \<not> is_root c) (rev cs)))"
    have t: "plain (component_text c)" using c False by (rule plain_component)
    have as: "list_all plain ?as"
      using snoc.prems by (auto simp: list_all_iff dest!: set_takeWhileD intro!: plain_component)
    have "link_target (cs @ [c]) =
        (if \<exists>c \<in> set cs. is_root c then [47] else []) @ slashed (?as @ [component_text c])"
      using False by (simp add: link_target_def)
    also have "\<dots> = path_join (link_target cs) (component_text c)"
      unfolding link_target_def by (rule path_join_slashed [OF as t, symmetric])
    finally show ?thesis using IH False by (simp add: component_path_text_def [of c])
  qed
qed (simp add: link_target_def)

context linked begin

lemma component_path_eq: "component_ok c \<Longrightarrow> component_path B c = Ret (component_path_text c)"
  using word_flag_bit [of 3 "sl_flags c"] word_flag_bit [of 1 "sl_flags c"] word_flag_bit [of 2 "sl_flags c"]
  by (auto simp: component_path_def component_path_text_def component_text_def component_ok_def lit_def
      split: if_splits)

lemma join_components_eq:
  "list_all component_ok cs \<Longrightarrow>
    join_components B acc cs = Ret (foldl path_join acc (map component_path_text cs))"
  by (induction cs arbitrary: acc) (simp_all add: component_path_eq del: and_then_eq_Ret)

lemma join_links_eq:
  assumes "list_all (\<lambda>l. sl_records l \<noteq> []) ls" and "list_all component_ok (concat (map sl_records ls))"
  shows "join_links B acc ls =
    Ret (if ls = [] then acc
         else Some (foldl path_join (unwrap_or acc []) (map component_path_text (concat (map sl_records ls)))))"
  using assms
proof (induction ls arbitrary: acc)
  case (Cons l ls)
  let ?t = "map component_path_text"
  have "path_join p (foldl path_join [] (?t (sl_records l))) = foldl path_join p (?t (sl_records l))" for p
  proof -
    obtain c cs where "sl_records l = c # cs" using Cons.prems(1) by (cases "sl_records l") auto
    then show ?thesis using foldl_path_join [of p _ "?t cs"] by simp
  qed
  with Cons show ?case by (auto simp add: join_components_eq simp del: and_then_eq_Ret)
qed simp

end

context linked_susp begin

lemma susp_symlink_target_eq:
  "links_ok susp \<Longrightarrow> susp_symlink_target B susp =
    Ret (if links_of susp = [] then None else Some (link_target (components_of susp)))"
  unfolding susp_symlink_target_def take_while_sl take_while_inclusive_pieces links_ok_def components_of_def
  by (simp add: join_links_eq foldl_link_target)

end

section \<open>The metadata of an entry\<close>

definition meta_of :: "SystemUseEntry list \<Rightarrow> ExtraMeta" where
  "meta_of susp =
    \<lparr>alt_name = alt_name_of susp,
     attributes = (case attributes_of susp of [] \<Rightarrow> None | a # _ \<Rightarrow> Some a),
     symlink_target = (if links_of susp = [] then None else Some (link_target (components_of susp))),
     extensions = set (case extensions_of susp of [] \<Rightarrow> [] | es # _ \<Rightarrow> es),
     timestamps = timestamps_of susp,
     relocated = (\<exists>b. RelocatedDirectory b \<in> set susp)\<rparr>"

lemma relocated_some:
  "List.map_filter (\<lambda>e. case e of RelocatedDirectory b \<Rightarrow> Some b | _ \<Rightarrow> None) susp = [] \<longleftrightarrow>
    (\<forall>b. RelocatedDirectory b \<notin> set susp)"
proof (induction susp)
  case (Cons e susp)
  then show ?case by (cases e) (auto simp: List.map_filter_simps)
qed (simp add: List.map_filter_simps)

lemma susp_child_link_eq: "susp_child_link susp = (case child_links_of susp of [] \<Rightarrow> None | l # _ \<Rightarrow> Some l)"
  by (simp add: susp_child_link_def first_of_def)

context linked_susp begin

lemma extra_meta_of_eq:
  assumes "links_ok susp"
  shows "extra_meta_of B susp = Ret (meta_of susp)"
proof -
  have "susp_relocated susp = (\<exists>b. RelocatedDirectory b \<in> set susp)"
    using relocated_some [of susp] by (auto simp: susp_relocated_def first_of_def split: list.splits)
  then show ?thesis
    by (simp add: extra_meta_of_def meta_of_def susp_symlink_target_eq [OF assms] susp_alt_name_eq susp_timestamps_eq
        susp_attributes_def susp_extensions_def first_of_def split: list.splits)
qed

end

section \<open>The name of an entry\<close>

text \<open>The name in an identifier: what stands before the last semicolon, without one dot at the end. The
  single characters 0 and 1 name a directory itself and its parent.\<close>

definition drop_dot :: "ustr \<Rightarrow> ustr" where
  "drop_dot s = (if ends_with 46 s then butlast s else s)"

definition base_name :: "ustr \<Rightarrow> ustr" where
  "base_name s =
    drop_dot (if 59 \<in> set s then rev (tl (dropWhile (\<lambda>c. c \<noteq> 59) (rev s))) else s)"

definition dir_name :: "ustr \<Rightarrow> ustr" where
  "dir_name s = (if s = [0] then lit ''.'' else if s = [1] then lit ''..'' else s)"

lemma rfind_split: "rfind c s = Some i \<Longrightarrow> \<exists>b. s = take i s @ c # b \<and> c \<notin> set b"
proof (induction s arbitrary: i)
  case (Cons x s)
  show ?case
  proof (cases "rfind c s")
    case None
    then show ?thesis using Cons.prems by (auto split: if_splits simp del: rfind_None simp: rfind_None [symmetric])
  next
    case (Some j)
    with Cons show ?thesis by force
  qed
qed simp

lemma base_name_semicolon: "59 \<notin> set v \<Longrightarrow> base_name (s @ 59 # v) = drop_dot s"
  by (simp add: base_name_def dropWhile_append)

lemma name_and_version_base: "name_and_version s = Ret (b, v) \<Longrightarrow> b = base_name s"
proof (cases "rfind 59 s")
  case None
  assume "name_and_version s = Ret (b, v)"
  then show ?thesis using None
    by (auto simp: name_and_version_def base_name_def drop_dot_def split: if_splits)
next
  case (Some i)
  assume "name_and_version s = Ret (b, v)"
  then have "b = drop_dot (take i s)" using Some by (auto simp: name_and_version_def drop_dot_def split: if_splits)
  moreover obtain w where "s = take i s @ 59 # w" "59 \<notin> set w" using rfind_split [OF Some] by blast
  ultimately show ?thesis using base_name_semicolon by metis
qed

text \<open>The identifier \<open>s\<close> gives the name and the version: \<open>name;version\<close> in decimal, with or without a dot
  before the semicolon, or the name alone, which is version 1.\<close>

definition versioned :: "ustr \<Rightarrow> ustr \<Rightarrow> u16 \<Rightarrow> bool" where
  "versioned s name v \<longleftrightarrow>
    (\<exists>dot version. s = recorded_name name dot version \<and> 59 \<notin> set name \<and> (dot \<or> \<not> ends_with 46 name)
      \<and> v = (case version of Some n \<Rightarrow> n | None \<Rightarrow> 1))"

lemma name_and_version_versioned: "versioned s name v \<Longrightarrow> name_and_version s = Ret (name, v)"
  by (auto simp: versioned_def name_and_version_recorded)

section \<open>The entry of a record\<close>

definition symlink_mode :: "u32 \<Rightarrow> bool" where
  "symlink_mode m \<longleftrightarrow> bit m 15 \<and> bit m 13"

lemma flag_2: "(w :: u8) AND 2 = 2 \<longleftrightarrow> bit w 1"
  using word_flag_bit [of 1 w] by simp

lemma flag_symlink: "(m :: u32) AND 0xA000 = 0xA000 \<longleftrightarrow> symlink_mode m"
  by (simp add: type_bits symlink_mode_def)

definition is_link :: "ExtraMeta \<Rightarrow> bool" where
  "is_link meta \<longleftrightarrow> (\<exists>a. attributes meta = Some a \<and> symlink_mode (px_mode a))"

lemma ISODirectory_new_eq:
  "ISODirectory_new h ext ident =
    \<lparr>dir_header = h, dir_identifier = dir_name (unwrap_or (alt_name ext) ident), dir_ext = ext\<rparr>"
  by (simp add: ISODirectory_new_def dir_name_def unwrap_or_def Let_def split: option.splits)

text \<open>A record with header \<open>h\<close>, identifier \<open>nm\<close> and system use entries \<open>susp\<close> stands for the entry \<open>e\<close>:
  a directory if its directory flag is set; else a relocated directory if there is a child link, which
  gives its extent, one block; else a link or a file, by the mode. The alternate name takes precedence
  over the identifier; what is not a directory has a version.\<close>

definition stands_for ::
    "DirectoryEntryHeader \<Rightarrow> ustr \<Rightarrow> SystemUseEntry list \<Rightarrow> DirectoryEntry \<Rightarrow> bool" where
  "stands_for h nm susp e \<longleftrightarrow>
    (let meta = meta_of susp; name = unwrap_or (alt_name_of susp) nm in
     if bit (file_flags h) 1 then
       child_links_of susp = []
       \<and> e = Directory \<lparr>dir_header = h, dir_identifier = dir_name name, dir_ext = meta\<rparr>
     else (\<exists>base v. versioned name base v \<and>
       (case child_links_of susp of
          [] \<Rightarrow>
            e = (if is_link meta
                 then Symlink \<lparr>sym_header = h, sym_identifier = base, sym_version = v, sym_ext = meta\<rparr>
                 else File \<lparr>file_header = h, file_identifier = base, file_version = v, file_ext = meta\<rparr>)
        | loc # _ \<Rightarrow>
            \<not> is_link meta
            \<and> e = Directory \<lparr>dir_header = h\<lparr>extent_loc := loc, extent_length := 2048, file_flags := file_flags h OR 2\<rparr>,
                    dir_identifier = dir_name (unwrap_or (alt_name_of susp) base), dir_ext = meta\<rparr>)))"

context linked begin

lemma DirectoryEntry_new_eq:
  "DirectoryEntry_new B h ext ident =
    (let name = unwrap_or (alt_name ext) ident in
     if bit (file_flags h) 1
     then Ret (Directory \<lparr>dir_header = h, dir_identifier = dir_name name, dir_ext = ext\<rparr>)
     else and_then (name_and_version name) (\<lambda>(base, v).
       Ret (if is_link ext
            then Symlink \<lparr>sym_header = h, sym_identifier = base, sym_version = v, sym_ext = ext\<rparr>
            else File \<lparr>file_header = h, file_identifier = base, file_version = v, file_ext = ext\<rparr>)))"
proof -
  have "(case attributes ext of Some attrs \<Rightarrow> bits32_contains B (px_mode attrs) TYPE_SYMLINK | None \<Rightarrow> False) = is_link ext"
    by (auto simp: is_link_def flag_symlink split: option.splits)
  moreover have "(case alt_name ext of Some alt \<Rightarrow> alt | None \<Rightarrow> ident) = unwrap_or (alt_name ext) ident"
    by (simp add: unwrap_or_def split: option.splits)
  ultimately show ?thesis
    by (cases "name_and_version (unwrap_or (alt_name ext) ident)")
      (auto simp: DirectoryEntry_new_def flag_2 ISODirectory_new_eq Symlink_new_def ISOFile_new_def Let_def)
qed

end

context linked_susp begin

lemma stands_for_entry:
  assumes "stands_for h nm susp e" and "links_ok susp"
  shows "\<exists>e0. DirectoryEntry_new B h (meta_of susp) nm = Ret e0
    \<and> follow_child_link B (susp_child_link susp) e0 = Ret e"
proof -
  have alt: "alt_name (meta_of susp) = alt_name_of susp" by (simp add: meta_of_def)
  show ?thesis
  proof (cases "bit (file_flags h) 1")
    case True
    with assms(1) show ?thesis
      by (simp add: stands_for_def DirectoryEntry_new_eq alt susp_child_link_eq follow_child_link_def Let_def)
  next
    case False
    with assms(1) obtain base v where nv: "name_and_version (unwrap_or (alt_name_of susp) nm) = Ret (base, v)"
      and e: "case child_links_of susp of
          [] \<Rightarrow> e = (if is_link (meta_of susp)
              then Symlink \<lparr>sym_header = h, sym_identifier = base, sym_version = v, sym_ext = meta_of susp\<rparr>
              else File \<lparr>file_header = h, file_identifier = base, file_version = v, file_ext = meta_of susp\<rparr>)
        | loc # _ \<Rightarrow> \<not> is_link (meta_of susp)
            \<and> e = Directory \<lparr>dir_header = h\<lparr>extent_loc := loc, extent_length := 2048, file_flags := file_flags h OR 2\<rparr>,
                    dir_identifier = dir_name (unwrap_or (alt_name_of susp) base), dir_ext = meta_of susp\<rparr>"
      by (auto simp: stands_for_def Let_def dest: name_and_version_versioned)
    have "DirectoryEntry_new B h (meta_of susp) nm = Ret (if is_link (meta_of susp)
        then Symlink \<lparr>sym_header = h, sym_identifier = base, sym_version = v, sym_ext = meta_of susp\<rparr>
        else File \<lparr>file_header = h, file_identifier = base, file_version = v, file_ext = meta_of susp\<rparr>)"
      using False by (simp add: DirectoryEntry_new_eq alt nv Let_def del: and_then_eq_Ret)
    with e show ?thesis
      by (auto simp: susp_child_link_eq follow_child_link_def ISODirectory_new_eq alt Let_def split: list.splits)
  qed
qed

end

end
