(* ===== verification/Directory_Image.thy ===== *)
theory Directory_Image
  imports Directory_Facts Metadata_Spec
begin

text \<open>
  A directory recorded in an image is listed as recorded: the records of each block one after the
  other, the rest of the block zero, each record with its system use area and the continuations of
  that area elsewhere in the image.
\<close>

record dir_rec =
  rec_header :: DirectoryEntryHeader
  rec_name :: ustr
  rec_susp :: "SystemUseEntry list"
  rec_pad :: nat

text \<open>The system use area, its entries and then zero bytes, and the whole record.\<close>

definition enc_area :: "dir_rec \<Rightarrow> u8 list" where
  "enc_area r = concat (map enc_sue (rec_susp r)) @ replicate (rec_pad r) 0"

definition enc_rec :: "dir_rec \<Rightarrow> u8 list" where
  "enc_rec r =
    enc_dir_record (rec_header r) (enc_name (de_character_encoding (rec_header r)) (rec_name r)) (enc_area r)"

text \<open>The record is recorded as the formats have it and stands for the entry \<open>e\<close>. The first block of
  conditions is on its bytes; then come those on what it means: at most one continuation entry, whose chain
  of areas the image holds, the components of its link well formed, and name and kind of the entry.\<close>

definition recorded :: "u8 list \<Rightarrow> CharacterEncoding \<Rightarrow> dir_rec \<Rightarrow> DirectoryEntry \<Rightarrow> bool" where
  "recorded img enc r e \<longleftrightarrow>
    header_ok (rec_header r) (enc_name enc (rec_name r)) (enc_area r)
    \<and> de_character_encoding (rec_header r) = enc \<and> name_ok enc (rec_name r) \<and> list_all sue_ok (rec_susp r)
    \<and> (\<exists>cont rest. continuations (rec_susp r) = opt_list cont \<and> chain img cont rest
        \<and> (let susp = map read_sue (filter not_ce (rec_susp r)) @ rest in
           links_ok susp \<and> stands_for (read_header (rec_header r)) (rec_name r) susp e))"

text \<open>The blocks of the directory hold the groups of records.\<close>

definition dir_recorded :: "u8 list \<Rightarrow> ISODirectory \<Rightarrow> dir_rec list list \<Rightarrow> bool" where
  "dir_recorded img dir gs \<longleftrightarrow>
    unat (extent_length (dir_header dir)) = 2048 * length gs
    \<and> 2048 * length gs + 2048 < 2 ^ 32
    \<and> (\<forall>k < length gs. gs ! k \<noteq> [] \<and> length (dir_block_at img dir k) = 2048
        \<and> (\<exists>z. dir_block_at img dir k = concat (map enc_rec (gs ! k)) @ replicate z 0))"

lemma split_continuation_eq:
  "split_continuation susp =
    (filter not_ce susp, case continuations susp of [] \<Rightarrow> None | cs \<Rightarrow> Some (last cs))"
proof -
  have "foldl (\<lambda>(susp, continuation) entry.
             case entry of ContinuationArea cont \<Rightarrow> (susp, Some cont)
             | _ \<Rightarrow> (susp @ [entry], continuation)) (acc, c) susp =
      (acc @ filter not_ce susp, case continuations susp of [] \<Rightarrow> c | cs \<Rightarrow> Some (last cs))" for acc c
  proof (induction susp arbitrary: acc c)
    case (Cons e susp)
    then show ?case by (cases e) (auto simp: continuations_Cons not_ce_def split: list.splits)
  qed simp
  then show ?thesis by (simp add: split_continuation_def)
qed

lemma recorded_length:
  assumes "recorded img enc r e"
  shows "length (enc_rec r) = unat (de_length (rec_header r))" "34 \<le> length (enc_rec r)"
    "enc_rec r \<noteq> []" "hd (enc_rec r) \<noteq> 0"
proof -
  let ?nm = "enc_name (de_character_encoding (rec_header r)) (rec_name r)"
  from assms have ok: "header_ok (rec_header r) ?nm (enc_area r)" by (auto simp: recorded_def)
  show len: "length (enc_rec r) = unat (de_length (rec_header r))"
    unfolding enc_rec_def by (rule length_enc_dir_record [OF ok])
  show "34 \<le> length (enc_rec r)" using ok by (cases ?nm) (simp_all add: len header_ok_def)
  then show "enc_rec r \<noteq> []" by auto
  have "hd (enc_rec r) = de_length (rec_header r)" by (simp add: enc_rec_def enc_dir_record_def)
  then show "hd (enc_rec r) \<noteq> 0" using \<open>34 \<le> length (enc_rec r)\<close> len by auto
qed

context linked_susp begin

lemma parse_recorded:
  assumes "recorded img enc r e"
  shows "DirectoryEntryHeader_parse B (enc_rec r @ post) enc =
    Ret (read_header (rec_header r), rec_name r,
      if rec_susp r = [] then None else Some (map read_sue (rec_susp r)))"
proof -
  let ?h = "rec_header r" and ?nm = "rec_name r"
  from assms have ok: "header_ok ?h (enc_name enc ?nm) (enc_area r)" "de_character_encoding ?h = enc"
    "name_ok enc ?nm" "list_all sue_ok (rec_susp r)"
    by (auto simp: recorded_def)
  obtain q where nm: "identifier_string B enc (enc_name enc ?nm) = Ret (q, ?nm)"
    using identifier_string_enc [OF ok(3)] by blast
  obtain q' where area: "opt_spec (system_use_entries B) (enc_area r) =
      Ret (q', if rec_susp r = [] then None else Some (map read_sue (rec_susp r)))"
    using area_enc [OF ok(4), of "rec_pad r"] by (auto simp: enc_area_def)
  show ?thesis
    using directory_entry_enc [OF ok(1), of q ?nm q' _ post] nm area
    by (simp add: DirectoryEntryHeader_parse_def enc_rec_def ok(2))
qed

lemma parse_entry_recorded:
  assumes rec: "recorded img (de_character_encoding (dir_header dir)) r e"
    and block: "block = pre @ enc_rec r @ post"
  shows "fst (parse_entry B (image_read_at img) dir block n (length pre) ()) =
    and_then (next_entry_offset B dir block n (length pre + length (enc_rec r))) (\<lambda>nxt. Ret (e, nxt))"
proof -
  let ?enc = "de_character_encoding (dir_header dir)" and ?h = "rec_header r" and ?nm = "rec_name r"
  let ?susp = "map read_sue (filter not_ce (rec_susp r))"
  let ?su = "if rec_susp r = [] then None else Some (map read_sue (rec_susp r))"
  from rec obtain cont rest where
    ce: "continuations (rec_susp r) = opt_list cont" "chain img cont rest" and
    links: "links_ok (?susp @ rest)" and e: "stands_for (read_header ?h) ?nm (?susp @ rest) e"
    by (auto simp: recorded_def Let_def)
  have parse: "DirectoryEntryHeader_parse B (drop (length pre) block) ?enc = Ret (read_header ?h, ?nm, ?su)"
    using parse_recorded [OF rec, of post] by (simp add: block)
  have split: "(case ?su of Some susp \<Rightarrow> split_continuation susp | None \<Rightarrow> ([], None)) = (?susp, cont)"
  proof (cases "rec_susp r = []")
    case True
    then show ?thesis using ce(1) by (cases cont) (simp_all add: opt_list_def)
  next
    case False
    then show ?thesis using ce(1) by (cases cont) (simp_all add: split_continuation_eq opt_list_def)
  qed
  have i: "image_directory B (image_read_at img) (\<lambda>_. True) img"
    using linked_susp_axioms pure_image.image_reader_axioms by (simp add: image_directory_def)
  have "continuations ?susp = []" by simp
  then have pull: "fst (pull_continuations B (image_read_at img) cont ?susp ()) = Ret (?susp @ rest)"
    using image_directory.continuation_loop_chain [OF i ce(2) TrueI, of ?susp "()"]
    by (auto simp: pull_continuations_def)
  have len: "unat (de_length ?h) = length (enc_rec r)" by (simp add: recorded_length(1) [OF rec])
  obtain e0 where e0: "DirectoryEntry_new B (read_header ?h) (meta_of (?susp @ rest)) ?nm = Ret e0"
    "follow_child_link B (susp_child_link (?susp @ rest)) e0 = (Ret e :: (ISOError, _) exec)"
    using stands_for_entry [OF e links] by blast
  have fin: "finish_entry B dir block n (length pre) (read_header ?h) ?nm (?susp @ rest) =
      and_then (next_entry_offset B dir block n (length pre + length (enc_rec r))) (\<lambda>nxt. Ret (e, nxt))"
    by (simp add: finish_entry_def extra_meta_of_eq [OF links] e0 len Let_def)
  have slice: "slice_of (length pre) (length block) block =
      (Ret (drop (length pre) block) :: (ISOError, _) exec)"
    by (simp add: block)
  show ?thesis
    by (simp add: parse_entry_def slice parse split pull fin case_prod_unfold Let_def)
qed

end

section \<open>The walk over a recorded directory\<close>

lemma next_entry_offset_recorded:
  assumes block: "block = pre @ post" "length block = 2048" and c: "block_count B dir = (Ret c :: ('e, _) exec)"
    and post: "post = [] \<or> (if at_last then hd post = 0 else hd post \<noteq> 0 \<and> length pre < 2015)"
    and nonempty: "\<not> at_last \<Longrightarrow> post \<noteq> []"
    and n: "n < unat c"
  shows "next_entry_offset B dir block n (length pre) =
    (Ret (if at_last then (if n + 1 < unat c then Some (2048 * (n + 1)) else None)
          else Some (2048 * n + length pre)) :: ('e, _) exec)"
proof (cases "length pre < 2015")
  case True
  then have post': "post \<noteq> []" using block by auto
  then have "block ! length pre = hd post" "length pre < length block"
    using block(1) by (simp_all add: hd_conv_nth nth_append)
  then show ?thesis using True post post' c n
    by (auto simp: next_entry_offset_def index_of_def Let_def split: if_splits)
next
  case False
  then have at_last using post nonempty by (cases at_last) auto
  then show ?thesis using False c by (simp add: next_entry_offset_def Let_def)
qed

context linked_susp begin

lemma dir_walk_block:
  assumes rec: "dir_recorded img dir gs" and k: "k < length gs"
    and gs: "gs ! k = before @ todo" "todo \<noteq> []"
    and ents: "list_all2 (recorded img (de_character_encoding (dir_header dir))) todo es"
    and next': "dir_walk B img dir (if k + 1 < length gs then Some (2048 * (k + 1)) else None) es' fin"
  shows "dir_walk B img dir (Some (2048 * k + length (concat (map enc_rec before)))) (es @ es') fin"
  using gs ents
proof (induction todo arbitrary: before es)
  case (Cons r todo)
  let ?pre = "concat (map enc_rec before)" and ?blk = "dir_block_at img dir k"
  let ?pre' = "?pre @ enc_rec r"
  from Cons.prems(3) obtain e es1 where es: "es = e # es1"
    and r: "recorded img (de_character_encoding (dir_header dir)) r e"
    and todo: "list_all2 (recorded img (de_character_encoding (dir_header dir))) todo es1"
    by (cases es) auto
  from rec k Cons.prems(1) obtain z where len: "length ?blk = 2048"
    and blk: "?blk = ?pre @ enc_rec r @ concat (map enc_rec todo) @ replicate z 0"
    unfolding dir_recorded_def by (metis append.assoc concat.simps(2) concat_append list.simps(9) map_append)
  let ?post = "concat (map enc_rec todo) @ replicate z 0"
  obtain c where c: "block_count B dir = (Ret c :: (ISOError, _) exec)" "unat c = length gs"
    using rec block_count_ceil [of dir B] by (auto simp: dir_recorded_def)
  have "length ?pre < 2048" using len recorded_length(2) [OF r] unfolding blk by simp
  then have off: "(2048 * k + length ?pre) div 2048 = k" "(2048 * k + length ?pre) mod 2048 = length ?pre"
    by simp_all
  have entry: "entry_at B img dir (2048 * k + length ?pre) =
      and_then (next_entry_offset B dir ?blk k (length ?pre')) (\<lambda>nxt. Ret (e, nxt))"
    using parse_entry_recorded [OF r blk, of k] by (simp only: entry_at_def off len Let_def) simp
  show ?case
  proof (cases "todo = []")
    case True
    have "next_entry_offset B dir ?blk k (length ?pre') =
        (Ret (if True then (if k + 1 < unat c then Some (2048 * (k + 1)) else None)
              else Some (2048 * k + length ?pre')) :: (ISOError, _) exec)"
      by (rule next_entry_offset_recorded [OF _ len c(1), where post = ?post])
        (use blk c(2) k True in \<open>cases z; simp\<close>)+
    with entry True todo have "entry_at B img dir (2048 * k + length ?pre) =
        Ret (e, if k + 1 < length gs then Some (2048 * (k + 1)) else None)" "es1 = []"
      by (simp_all add: c(2))
    with next' show ?thesis unfolding es by (auto intro: walk_step)
  next
    case False
    then obtain r2 todo2 e2 where r2: "todo = r2 # todo2"
      "recorded img (de_character_encoding (dir_header dir)) r2 e2"
      using todo by (cases todo; cases es1) auto
    note r2_len = recorded_length [OF r2(2)]
    have "hd ?post \<noteq> 0" "?post \<noteq> []" using r2_len r2(1) by simp_all
    moreover have "length ?pre' < 2015" using len r2_len(2) unfolding blk r2(1) by simp
    ultimately have "next_entry_offset B dir ?blk k (length ?pre') =
        (Ret (if False then (if k + 1 < unat c then Some (2048 * (k + 1)) else None)
              else Some (2048 * k + length ?pre')) :: (ISOError, _) exec)"
      by (intro next_entry_offset_recorded [OF _ len c(1), where post = ?post])
        (use blk c(2) k in simp_all)
    with entry have "entry_at B img dir (2048 * k + length ?pre) = Ret (e, Some (2048 * k + length ?pre'))"
      by simp
    moreover have "dir_walk B img dir (Some (2048 * k + length ?pre')) (es1 @ es') fin"
      using Cons.IH [of "before @ [r]" es1] Cons.prems(1) False todo by simp
    ultimately show ?thesis unfolding es by (auto intro: walk_step)
  qed
qed simp

lemma dir_walk_recorded:
  assumes rec: "dir_recorded img dir gs" and k: "k < length gs"
    and ents: "list_all2 (recorded img (de_character_encoding (dir_header dir))) (concat (drop k gs)) es"
  shows "dir_walk B img dir (Some (2048 * k)) es (Ret ())"
  using k ents
proof (induction "length gs - k" arbitrary: k es)
  case (Suc d)
  have "drop k gs = gs ! k # drop (k + 1) gs" using Suc.prems(1) by (simp add: Cons_nth_drop_Suc)
  with Suc.prems(2) obtain es1 es2 where es: "es = es1 @ es2"
    and ents: "list_all2 (recorded img (de_character_encoding (dir_header dir))) (gs ! k) es1"
      "list_all2 (recorded img (de_character_encoding (dir_header dir))) (concat (drop (k + 1) gs)) es2"
    by (auto simp: list_all2_append1)
  have ne: "gs ! k \<noteq> []" using rec Suc.prems(1) by (simp add: dir_recorded_def)
  have "dir_walk B img dir (if k + 1 < length gs then Some (2048 * (k + 1)) else None) es2 (Ret ())"
  proof (cases "k + 1 < length gs")
    case True
    then show ?thesis using Suc.hyps(1) [of "k + 1" es2] Suc.hyps(2) ents(2) by simp
  next
    case False
    then show ?thesis using ents(2) by (simp add: walk_end)
  qed
  from dir_walk_block [OF rec Suc.prems(1) _ ne ents(1) this, of "[]"] show ?case
    unfolding es by simp
qed simp

end

section \<open>When a lookup ends\<close>

text \<open>The offsets that the walk over a directory visits, and the continuation entries of the records there.\<close>

inductive visited :: "'z susp_build_scheme \<Rightarrow> u8 list \<Rightarrow> ISODirectory \<Rightarrow> u64 \<Rightarrow> bool"
  for B img dir where
  visited_first: "visited B img dir 0"
| visited_next: "visited B img dir off \<Longrightarrow> entry_at B img dir off = Ret (e, Some off') \<Longrightarrow> visited B img dir off'"

definition continues_in ::
    "'z susp_build_scheme \<Rightarrow> u8 list \<Rightarrow> ISODirectory \<Rightarrow> ContinuationArea set \<Rightarrow> bool" where
  "continues_in B img dir S \<longleftrightarrow>
    (\<forall>off h nm susp. visited B img dir off \<longrightarrow>
       DirectoryEntryHeader_parse B (drop (off mod 2048) (dir_block_at img dir (off div 2048)))
         (de_character_encoding (dir_header dir)) = Ret (h, nm, Some susp) \<longrightarrow>
       set (continuations susp) \<subseteq> S)"

lemma component_path_ends: "component_path B c \<noteq> Hang"
  by (auto simp: component_path_def and_then_eq_Hang)

lemma join_components_ends: "join_components B acc cs \<noteq> Hang"
  by (induction cs arbitrary: acc) (auto simp: and_then_eq_Hang component_path_ends)

lemma join_links_ends: "join_links B acc ls \<noteq> Hang"
  by (induction ls arbitrary: acc) (auto simp: and_then_eq_Hang join_components_ends)

lemma next_entry_offset_ends: "next_entry_offset B dir block n pos \<noteq> Hang"
  by (auto simp: next_entry_offset_def block_count_def word_add_def word_sub_def index_of_def and_then_eq_Hang Let_def
      split: if_splits)

lemma finish_entry_ends: "finish_entry B dir block n pos h nm susp \<noteq> Hang"
  using DirectoryEntry_new_returns
  by (auto simp: finish_entry_def extra_meta_of_def susp_symlink_target_def and_then_eq_Hang join_links_ends
      next_entry_offset_ends follow_child_link_def returns_def Let_def split: option.splits DirectoryEntry.splits)

lemma split_continuation_subset:
  "split_continuation susp = (susp', cont) \<Longrightarrow>
    set (continuations susp') \<union> set_option cont \<subseteq> set (continuations susp)"
  by (auto simp: split_continuation_eq split: list.splits if_splits)

context image_directory begin

lemma entry_at_ends:
  assumes "ranked B img S rk" and "continues_in B img dir S" and "visited B img dir off"
  shows "entry_at B img dir off \<noteq> Hang"
proof -
  let ?enc = "de_character_encoding (dir_header dir)"
  let ?k = "off div 2048" and ?pos = "off mod 2048"
  let ?block = "dir_block_at img dir ?k"
  have "fst (parse_entry B (image_read_at img) dir ?block ?k ?pos ()) \<noteq> Hang" if len: "length ?block = 2048"
  proof -
    have slice: "slice_of ?pos (length ?block) ?block = (Ret (drop ?pos ?block) :: (ISOError, _) exec)"
      using len by (simp add: slice_of_def)
    have pull: "fst (pull_continuations B (image_read_at img) cont susp ()) \<noteq> Hang"
      if "set (continuations susp) \<union> set_option cont \<subseteq> S" for cont susp
      using image_directory.continuation_loop_total [OF pure_image_directory assms(1) TrueI that, of "()"]
      by (fastforce simp: pull_continuations_def)
    show ?thesis
    proof (cases "DirectoryEntryHeader_parse B (drop ?pos ?block) ?enc")
      case (Ret rec)
      obtain h nm su where rec: "rec = (h, nm, su)" by (cases rec) auto
      obtain susp cont where split: "(case su of Some susp \<Rightarrow> split_continuation susp | None \<Rightarrow> ([], None)) = (susp, cont)"
        by fastforce
      have "set (continuations susp) \<union> set_option cont \<subseteq> S"
      proof (cases su)
        case (Some susp0)
        then have "set (continuations susp0) \<subseteq> S" using assms(2,3) Ret rec unfolding continues_in_def by blast
        with Some split split_continuation_subset [of susp0 susp cont] show ?thesis by auto
      qed (use split in auto)
      from pull [OF this] show ?thesis
        by (auto simp: parse_entry_def slice Ret rec split and_then_eq_Hang finish_entry_ends split: prod.splits)
    qed (use DirectoryEntryHeader_parse_ends in \<open>auto simp: parse_entry_def slice\<close>)
  qed
  then show ?thesis by (simp add: entry_at_def Let_def)
qed

lemma dir_walk_ends:
  assumes "dir_walk B img dir nxt es fin" and "ranked B img S rk" and "continues_in B img dir S"
    and "\<And>off. nxt = Some off \<Longrightarrow> visited B img dir off"
  shows "fin \<noteq> Hang"
  using assms
  by (induction rule: dir_walk.induct) (auto simp: and_then_eq_Hang entry_at_ends intro: visited_next)

end

section \<open>An example directory\<close>

text \<open>One block with the record of the directory itself and of a file \<open>A;1\<close>.\<close>

definition demo_time :: OffsetDateTime where
  "demo_time =
    \<lparr>odt_date = \<lparr>date_year = 2000, date_month = 1, date_day = 1\<rparr>,
     odt_time = \<lparr>time_hour = 12, time_minute = 0, time_second = 0, time_milli = 0\<rparr>, odt_offset = 0\<rparr>"

definition demo_header :: "u8 \<Rightarrow> u32 \<Rightarrow> u8 \<Rightarrow> DirectoryEntryHeader" where
  "demo_header len loc flags =
    \<lparr>de_length = len, extended_attribute_record_length = 0, extent_loc = loc, extent_length = 2048,
     de_time = demo_time, file_flags = flags, file_unit_size = 0, interleave_gap_size = 0,
     de_volume_sequence_number = 1, de_character_encoding = Iso9660\<rparr>"

definition demo_recs :: "dir_rec list" where
  "demo_recs =
    [\<lparr>rec_header = demo_header 34 0 2, rec_name = [0], rec_susp = [], rec_pad = 0\<rparr>,
     \<lparr>rec_header = demo_header 36 19 0, rec_name = lit ''A;1'', rec_susp = [], rec_pad = 0\<rparr>]"

definition demo_dir :: ISODirectory where
  "demo_dir = \<lparr>dir_header = demo_header 34 0 2, dir_identifier = lit ''.'', dir_ext = ExtraMeta_default\<rparr>"

definition demo_file :: DirectoryEntry where
  "demo_file =
    File \<lparr>file_header = demo_header 36 19 0, file_identifier = lit ''A'', file_version = 1,
          file_ext = ExtraMeta_default\<rparr>"

definition demo_dir_img :: "u8 list" where
  "demo_dir_img = concat (map enc_rec demo_recs) @ replicate 1978 0"

abbreviation (input) demo_B :: susp_build where "demo_B \<equiv> std_susp_build True False True"

abbreviation (input) demo_cursor :: cursor where
  "demo_cursor \<equiv> \<lparr>cur_data = demo_dir_img, cur_pos = 0\<rparr>"

lemmas demo_linked = std_susp.linked_susp_axioms [where asserts = True and big = False and checks = True]
lemmas demo_image = cursor.image_reader_axioms [where B = demo_B and img = demo_dir_img]

lemma meta_of_Nil: "meta_of [] = ExtraMeta_default"
  by (simp add: meta_of_def alt_name_of_def timestamps_of_def last_of_def ExtraMeta_default_def
      PosixTimestamp_default_def List.map_filter_simps)

lemma demo_name_bytes: "enc_name Iso9660 [0] = [0]" "enc_name Iso9660 (lit ''A;1'') = [65, 59, 49]"
  by (simp_all add: enc_name_def lit_def as_bytes_ascii)

lemma demo_header_ok:
  "header_ok (demo_header 34 0 2) [0] []" "header_ok (demo_header 36 19 0) [65, 59, 49] []"
  by (simp_all add: header_ok_def demo_header_def date_ok_def demo_time_def days_in_month_def
      FileFlags_all_def)

lemma demo_length: "length (concat (map enc_rec demo_recs)) = 70"
proof -
  have "de_character_encoding (demo_header len loc flags) = Iso9660" for len loc flags by (simp add: demo_header_def)
  then show ?thesis using demo_header_ok
    by (simp add: demo_recs_def enc_rec_def enc_area_def demo_name_bytes length_enc_dir_record)
      (simp add: demo_header_def)
qed

lemma versioned_version: "59 \<notin> set s \<Longrightarrow> \<not> ends_with 46 s \<Longrightarrow> versioned (s @ 59 # decimal (unat v)) s v"
  unfolding versioned_def by (intro exI [of _ False] exI [of _ "Some v"]) (simp add: recorded_name_def)

lemma recorded_plain:
  assumes "header_ok h (enc_name enc name) []" and "de_character_encoding h = enc" and "name_ok enc name"
    and "stands_for (read_header h) name [] e"
  shows "recorded img enc \<lparr>rec_header = h, rec_name = name, rec_susp = [], rec_pad = 0\<rparr> e"
proof -
  have "chain img None []" by (rule chain_end)
  moreover have "links_ok []" by (simp add: links_ok_def components_of_def List.map_filter_simps)
  ultimately show ?thesis using assms
    unfolding recorded_def enc_area_def by (auto simp: opt_list_def intro!: exI [of _ None] exI [of _ "[]"])
qed

lemma demo_header_read: "read_header (demo_header len loc flags) = demo_header len loc flags"
  by (simp add: read_header_def read_date_def demo_header_def demo_time_def)

lemma demo_stands_for:
  "stands_for (demo_header 34 loc 2) [0] [] (Directory
    \<lparr>dir_header = demo_header 34 loc 2, dir_identifier = lit ''.'', dir_ext = ExtraMeta_default\<rparr>)"
  "stands_for (demo_header 36 19 0) (lit ''A;1'') [] demo_file"
proof -
  have none: "alt_name_of [] = None" by (simp add: alt_name_of_def List.map_filter_simps)
  have dir: "bit (2 :: u8) 1" "\<not> bit (0 :: u8) 1" by (simp_all add: bit_numeral_rec)
  show "stands_for (demo_header 34 loc 2) [0] [] (Directory
      \<lparr>dir_header = demo_header 34 loc 2, dir_identifier = lit ''.'', dir_ext = ExtraMeta_default\<rparr>)"
    using dir by (simp add: stands_for_def meta_of_Nil none dir_name_def List.map_filter_simps demo_header_def)
  have "versioned (lit ''A'' @ 59 # decimal (unat (1 :: u16))) (lit ''A'') 1"
    by (rule versioned_version) (simp_all add: lit_def ends_with_def)
  moreover have "lit ''A'' @ 59 # decimal (unat (1 :: u16)) = lit ''A;1''" by (simp add: lit_def decimal.simps)
  moreover have "\<not> is_link ExtraMeta_default" by (simp add: is_link_def ExtraMeta_default_def)
  ultimately show "stands_for (demo_header 36 19 0) (lit ''A;1'') [] demo_file"
    using dir by (auto simp: stands_for_def meta_of_Nil none demo_file_def List.map_filter_simps demo_header_def)
qed

lemma demo_recorded:
  "list_all2 (recorded img Iso9660) demo_recs [Directory demo_dir, demo_file]"
proof -
  have names: "name_ok Iso9660 [0]" "name_ok Iso9660 (lit ''A;1'')"
    by (simp_all add: name_ok_def lit_def is_whitespace_def is_scalar_def)
  have enc: "de_character_encoding (demo_header len loc flags) = Iso9660" for len loc flags by (simp add: demo_header_def)
  have "recorded img Iso9660 \<lparr>rec_header = demo_header 34 0 2, rec_name = [0], rec_susp = [], rec_pad = 0\<rparr>
      (Directory demo_dir)"
    by (rule recorded_plain) (use demo_header_ok(1) demo_stands_for(1) [of 0] names(1) in
      \<open>simp_all add: enc demo_name_bytes demo_header_read demo_dir_def\<close>)
  moreover have "recorded img Iso9660 \<lparr>rec_header = demo_header 36 19 0, rec_name = lit ''A;1'', rec_susp = [], rec_pad = 0\<rparr>
      demo_file"
    by (rule recorded_plain) (use demo_header_ok(2) demo_stands_for(2) names(2) in
      \<open>simp_all add: enc demo_name_bytes demo_header_read\<close>)
  ultimately show ?thesis by (simp add: demo_recs_def)
qed

lemma demo_dir_recorded: "dir_recorded demo_dir_img demo_dir [demo_recs]"
proof -
  have "dir_block_at demo_dir_img demo_dir 0 = demo_dir_img"
    using demo_length by (simp add: dir_block_at_def img_at_def demo_dir_def demo_header_def demo_dir_img_def)
  moreover have "unat (extent_length (dir_header demo_dir)) = 2048" by (simp add: demo_dir_def demo_header_def)
  ultimately show ?thesis using demo_length
    unfolding dir_recorded_def by (auto simp: demo_dir_img_def)
qed

lemma demo_walk:
  "dir_walk demo_B demo_dir_img demo_dir (Some 0) [Directory demo_dir, demo_file] (Ret ())"
proof -
  have "de_character_encoding (dir_header demo_dir) = Iso9660" by (simp add: demo_dir_def demo_header_def)
  then show ?thesis
    using std_susp.dir_walk_recorded [OF demo_dir_recorded, of 0] demo_recorded by simp
qed

section \<open>Properties\<close>

text \<open>C3: the directory that is recorded is the directory that is found: over an image whose blocks
  hold the given records of a directory, in ISO 9660 or UCS-2 (each with its name, its system use entries
  and, elsewhere in the image, the continuation areas of these), a lookup through any reader of the
  image gives the first recorded entry that is not an associated file and has the name, ignoring ASCII
  case, or none. It neither fails nor unwinds, and it ends. The conditions on a record (\<open>recorded\<close>): the
  length byte counts its bytes, interleaving is not used, its date is valid; each area has at most one
  continuation entry and each continuation area begins at the start of its block; the name of a file or
  a link has no semicolon but that of a decimal version; a child link is on a record that is neither a
  directory nor a link; a link component is a name without slash or a special one. What an entry is
  (\<open>stands_for\<close>, \<open>meta_of\<close>) is stated of the recorded system use entries, not of the program.\<close>

theorem find_recorded:
  assumes "linked_susp B" and "image_reader rd ok img" and "ok r"
    and "dir_recorded img dir gs" and "gs \<noteq> []"
    and "list_all2 (recorded img (de_character_encoding (dir_header dir))) (concat gs) es"
  shows "\<exists>r'. ok r' \<and> find_entry B rd dir name r = (Ret (List.find (named name) es), r')"
proof -
  have i: "image_directory B rd ok img" using assms(1,2) by (simp add: image_directory_def)
  have "dir_walk B img dir (Some 0) es (Ret ())"
    using linked_susp.dir_walk_recorded [OF assms(1,4), of 0 es] assms(5,6) by simp
  from image_directory.find_entry_walk [OF i this assms(3), of name] show ?thesis
    by (auto simp: find_result_def split: option.splits)
qed

lemma demo_named: "List.find (named (lit ''a'')) [Directory demo_dir, demo_file] = Some demo_file"
  by (simp add: named_def demo_dir_def demo_file_def demo_header_def to_ascii_lowercase_def lit_def)

theorem find_recorded_witness:
  "\<exists>r'. find_entry demo_B (blanket_read_at demo_B cursor_io) demo_dir (lit ''a'') demo_cursor =
    (Ret (Some demo_file), r')"
proof -
  have "de_character_encoding (dir_header demo_dir) = Iso9660" by (simp add: demo_dir_def demo_header_def)
  moreover note demo_named
  ultimately show ?thesis
    using find_recorded [OF demo_linked demo_image _
        demo_dir_recorded, where r = demo_cursor and es = "[Directory demo_dir, demo_file]" and name = "lit ''a''"]
      demo_recorded by auto
qed

text \<open>C15: the block cache and the state of the reader do not show: over any reader of an image and any
  cache that agrees with the image, \<open>read_entry_at\<close> gives what an uncached reading of the block gives
  (\<open>entry_at\<close>, a function of the image, the directory and the offset), on success and on every kind of
  failure, and leaves the cache in agreement.\<close>

theorem read_entry_at_cache:
  assumes "linked_susp B" and "image_reader rd ok img" and "ok r"
    and "dir_cache_ok img dir block num" and "off < 2 ^ 63"
  shows "\<exists>block' num' r'. ok r' \<and> dir_cache_ok img dir block' num' \<and>
    read_entry_at B rd dir block num off r = (entry_at B img dir off, block', num', r')"
proof -
  have "image_directory B rd ok img" using assms(1,2) by (simp add: image_directory_def)
  from image_directory.read_entry_at_image [OF this assms(3-5)] show ?thesis .
qed

theorem read_entry_at_cache_witness:
  "\<exists>block' num' r'. dir_cache_ok demo_dir_img demo_dir block' num' \<and>
    read_entry_at demo_B (blanket_read_at demo_B cursor_io) demo_dir BlockBuffer_new None 34 demo_cursor =
      (entry_at demo_B demo_dir_img demo_dir 34, block', num', r')"
  using read_entry_at_cache [OF demo_linked demo_image,
      where r = demo_cursor and off = 34 and dir = demo_dir and block = BlockBuffer_new and num = None] by auto

text \<open>C18: reading a directory makes progress: whatever the reader does and whatever the blocks hold, the
  offset \<open>read_entry_at\<close> gives for the next record is greater than the one it was given and lies within
  the largest directory a record can describe.\<close>

theorem read_entry_at_advances:
  assumes "linked_susp B" and "slice_reader rd" and "length block = 2048"
    and "read_entry_at B rd dir block num off r = (Ret (e, Some off'), block', num', r')"
  shows "off < off' \<and> off' < 2048 * 2 ^ 32"
proof -
  have "directory_reader B rd" using assms(1,2) by (simp add: directory_reader_def)
  from directory_reader.read_entry_at_progress [OF this assms(4,3)] show ?thesis .
qed

lemma demo_entry_0: "entry_at demo_B demo_dir_img demo_dir 0 = Ret (Directory demo_dir, Some 34)"
proof -
  have blk: "dir_block_at demo_dir_img demo_dir 0 = demo_dir_img"
    using demo_length by (simp add: dir_block_at_def img_at_def demo_dir_def demo_header_def demo_dir_img_def)
  obtain c :: u32 where c: "block_count demo_B demo_dir = (Ret c :: (ISOError, _) exec)" "unat c = 1"
    using block_count_ceil [of demo_dir demo_B] by (auto simp: demo_dir_def demo_header_def)
  let ?r = "demo_recs ! 0"
  have r: "recorded demo_dir_img (de_character_encoding (dir_header demo_dir)) ?r (Directory demo_dir)"
    using demo_recorded by (simp add: demo_recs_def demo_dir_def demo_header_def)
  have r1: "recorded demo_dir_img Iso9660 (demo_recs ! 1) demo_file"
    using demo_recorded by (simp add: demo_recs_def)
  have img: "demo_dir_img = [] @ enc_rec ?r @ (enc_rec (demo_recs ! 1) @ replicate 1978 0)"
    by (simp add: demo_dir_img_def demo_recs_def)
  have len: "length (enc_rec ?r) = 34"
    using recorded_length(1) [OF r] by (simp add: demo_recs_def demo_header_def)
  have "next_entry_offset demo_B demo_dir demo_dir_img 0 (length (enc_rec ?r)) =
      (Ret (if False then (if 0 + 1 < unat c then Some (2048 * (0 + 1)) else None)
            else Some (2048 * 0 + length (enc_rec ?r))) :: (ISOError, _) exec)"
    using img demo_length recorded_length [OF r1]
    by (intro next_entry_offset_recorded [OF _ _ c(1),
          where post = "enc_rec (demo_recs ! 1) @ replicate 1978 0"]) (simp_all add: demo_dir_img_def c(2) len)
  then show ?thesis
    using std_susp.parse_entry_recorded [OF r img, where n = 0] demo_length
    by (simp add: entry_at_def blk len) (simp add: demo_dir_img_def)
qed

theorem read_entry_at_advances_witness:
  "\<exists>off'. 0 < off' \<and> off' < 2048 * 2 ^ 32 \<and>
    fst (read_entry_at demo_B (blanket_read_at demo_B cursor_io) demo_dir BlockBuffer_new None 0 demo_cursor) =
      Ret (Directory demo_dir, Some off')"
proof -
  have "image_directory demo_B (blanket_read_at demo_B cursor_io) (\<lambda>c. cur_data c = demo_dir_img) demo_dir_img"
    by (rule cursor_image.image_directory_axioms)
  from image_directory.read_entry_at_image [OF this, of demo_cursor demo_dir BlockBuffer_new None 0]
  obtain block' num' r' where read: "read_entry_at demo_B (blanket_read_at demo_B cursor_io) demo_dir
      BlockBuffer_new None 0 demo_cursor = (Ret (Directory demo_dir, Some 34), block', num', r')"
    by (auto simp: demo_entry_0)
  from read_entry_at_advances [OF demo_linked cursor_slice.slice_reader_axioms _ read]
  show ?thesis using read by (simp add: BlockBuffer_new_def)
qed

text \<open>C19: a lookup ends: over an image, whatever the blocks of the directory hold, \<open>find\<close> comes to an end
  after finitely many records and finitely many continuation areas, with an entry, with none, with an
  error or by unwinding, provided that the continuation areas its records can refer to (\<open>S\<close>) do not form
  a cycle: the references between them go down in some rank. Without that proviso it need not end, as
  the property on cycles states.\<close>

theorem find_entry_ends:
  assumes "linked_susp B" and "image_reader rd ok img" and "ok r"
    and "ranked B img S rk" and "continues_in B img dir S"
  shows "\<exists>res r'. ok r' \<and> res \<noteq> Hang \<and> find_entry B rd dir name r = (res, r')"
proof -
  have i: "image_directory B rd ok img" using assms(1,2) by (simp add: image_directory_def)
  obtain es fin where walk: "dir_walk B img dir (Some 0) es fin"
    using linked_susp.dir_walk_exists [OF assms(1), of "Some 0" img dir] by auto
  have "fin \<noteq> Hang"
    by (rule image_directory.dir_walk_ends [OF i walk assms(4,5)]) (auto intro: visited_first)
  then have "find_result name es fin \<noteq> Hang" by (auto simp: find_result_def and_then_eq_Hang split: option.splits)
  with image_directory.find_entry_walk [OF i walk assms(3), of name] show ?thesis by blast
qed

lemma demo_visited: "visited demo_B demo_dir_img demo_dir off \<Longrightarrow> off \<in> {0, 34}"
proof (induction rule: visited.induct)
  case (visited_next off e off')
  have "\<exists>e. entry_at demo_B demo_dir_img demo_dir 34 = Ret (e, None)"
  proof -
    from demo_walk obtain nxt where e: "entry_at demo_B demo_dir_img demo_dir 34 = Ret (demo_file, nxt)"
      "dir_walk demo_B demo_dir_img demo_dir nxt [] (Ret ())"
      by (auto simp: demo_entry_0 elim!: walk_SomeE)
    from e(2) have "nxt = None"
      by (cases nxt) (auto elim!: walk_SomeE dest!: sym [of "Ret ()"])
    with e(1) show ?thesis by auto
  qed
  with visited_next show ?case by (auto simp: demo_entry_0)
qed simp

lemma demo_continues_in: "continues_in demo_B demo_dir_img demo_dir {}"
proof -
  have img: "dir_block_at demo_dir_img demo_dir 0 = demo_dir_img"
    using demo_length by (simp add: dir_block_at_def img_at_def demo_dir_def demo_header_def demo_dir_img_def)
  have enc: "de_character_encoding (dir_header demo_dir) = Iso9660" by (simp add: demo_dir_def demo_header_def)
  obtain r0 r1 where recs: "demo_recs = [r0, r1]" "rec_susp r0 = []" "rec_susp r1 = []" by (simp add: demo_recs_def)
  from demo_recorded have r: "recorded demo_dir_img Iso9660 r0 (Directory demo_dir)" "recorded demo_dir_img Iso9660 r1 demo_file"
    by (auto simp: recs(1))
  have "length (enc_rec r0) = 34"
    using recorded_length(1) [OF r(1)] recs(1) by (auto simp: demo_recs_def demo_header_def)
  then have rest: "drop 34 demo_dir_img = enc_rec r1 @ replicate 1978 0" by (simp add: demo_dir_img_def recs(1))
  have first: "drop 0 demo_dir_img = enc_rec r0 @ enc_rec r1 @ replicate 1978 0" by (simp add: demo_dir_img_def recs(1))
  note parse = std_susp.parse_recorded [where asserts = True and big = False and checks = True]
  have "\<exists>h nm. DirectoryEntryHeader_parse demo_B (drop (off mod 2048) (dir_block_at demo_dir_img demo_dir (off div 2048)))
      Iso9660 = Ret (h, nm, None)" if "visited demo_B demo_dir_img demo_dir off" for off
  proof (cases "off = 0")
    case True
    then have "drop (off mod 2048) (dir_block_at demo_dir_img demo_dir (off div 2048)) = demo_dir_img" by (simp add: img)
    then show ?thesis
      using parse [OF r(1), of "enc_rec r1 @ replicate 1978 0"] first recs(2) by simp
  next
    case False
    then have "off = 34" using demo_visited [OF that] by simp
    then show ?thesis using parse [OF r(2), of "replicate 1978 0"] by (simp add: img rest recs(3))
  qed
  then show ?thesis unfolding continues_in_def enc by fastforce
qed

theorem find_entry_ends_witness:
  "\<exists>res r'. res \<noteq> Hang
    \<and> find_entry demo_B (blanket_read_at demo_B cursor_io) demo_dir (lit ''a'') demo_cursor = (res, r')"
proof -
  have "ranked demo_B demo_dir_img {} (\<lambda>_. 0)" by (simp add: ranked_def)
  from find_entry_ends [OF demo_linked demo_image _ this demo_continues_in, of demo_cursor "lit ''a''"]
  show ?thesis by auto
qed

text \<open>C6: on every image and every directory the walk over the records exists and is unique, and \<open>find\<close>
  is the first match of the walk, or the way the walk ends: \<open>Ok(None)\<close> at the end of the directory, the
  error, the unwinding or the hang of the first record that cannot be read.\<close>

theorem find_is_first_match:
  assumes "linked_susp B" and "image_reader rd ok img" and "ok r"
  shows "(\<exists>!(es, fin). dir_walk B img dir (Some 0) es fin)
    \<and> (\<forall>es fin. dir_walk B img dir (Some 0) es fin \<longrightarrow>
         (\<exists>r'. ok r' \<and> find_entry B rd dir name r = (find_result name es fin, r')))"
proof -
  have i: "image_directory B rd ok img" using assms(1,2) by (simp add: image_directory_def)
  obtain es0 fin0 where walk: "dir_walk B img dir (Some 0) es0 fin0"
    using linked_susp.dir_walk_exists [OF assms(1), of "Some 0" img dir] by auto
  then have "\<exists>!(es, fin). dir_walk B img dir (Some 0) es fin"
    by (intro ex1I [of _ "(es0, fin0)"]) (auto dest: dir_walk_unique [OF walk])
  then show ?thesis using image_directory.find_entry_walk [OF i _ assms(3)] by blast
qed

theorem find_is_first_match_witness:
  "\<exists>r'. find_entry demo_B (blanket_read_at demo_B cursor_io) demo_dir (lit ''B'') demo_cursor = (Ret None, r')"
proof -
  have "find_result (lit ''B'') [Directory demo_dir, demo_file] (Ret ()) = Ret None"
    by (simp add: find_result_def named_def demo_dir_def demo_file_def demo_header_def
        to_ascii_lowercase_def lit_def)
  then show ?thesis
    using find_is_first_match [OF demo_linked demo_image, of demo_cursor demo_dir "lit ''B''"] demo_walk
    by fastforce
qed

text \<open>C8: \<open>find_recursive\<close> resolves a path segment by segment: each segment is looked up in the
  directory the ones before lead to, a segment below something that is not a directory gives
  \<open>Ok(None)\<close>, and the first lookup that finds nothing or fails decides the result.\<close>

theorem find_recursive_resolves:
  assumes "linked_susp B" and "image_reader rd ok img" and "ok r"
  shows "\<exists>res r'. resolves B img (Directory dir) (path_segments path) res \<and> ok r'
    \<and> find_recursive B rd dir path r = (res, r')"
proof -
  have i: "image_directory B rd ok img" using assms(1,2) by (simp add: image_directory_def)
  obtain res where "resolves B img (Directory dir) (path_segments path) res"
    using image_directory.resolves_exists [OF i] by blast
  with image_directory.find_segments_resolves [OF i this assms(3)] show ?thesis
    by (auto simp: find_recursive_def)
qed

theorem find_recursive_resolves_witness:
  "\<exists>res r'. resolves demo_B demo_dir_img (Directory demo_dir) (path_segments (lit ''/A'')) res
    \<and> find_recursive demo_B (blanket_read_at demo_B cursor_io) demo_dir (lit ''/A'') demo_cursor = (res, r')"
  using find_recursive_resolves [OF demo_linked demo_image,
      of demo_cursor demo_dir "lit ''/A''"] by auto

text \<open>Looking up \<open>p/q\<close> is looking up \<open>p\<close> and then \<open>q\<close> from what was found, and slashes at the start,
  at the end or doubled change nothing; for any reader.\<close>

theorem find_recursive_slash:
  "find_recursive B rd dir (p @ 47 # q) r =
     (case find_recursive B rd dir p r of
        (Ret (Some entry), r) \<Rightarrow> find_segments B rd entry (path_segments q) r
      | (res, r) \<Rightarrow> (res, r))
   \<and> find_recursive B rd dir (47 # p) r = find_recursive B rd dir p r
   \<and> find_recursive B rd dir (p @ [47]) r = find_recursive B rd dir p r"
  using path_segments_append [of p "[]"]
  by (simp add: find_recursive_def path_segments_append find_segments_append)

lemma unat_pred_less: "0 < unat w \<Longrightarrow> unat w < Suc n \<Longrightarrow> unat (w - 1) < n"
  using unat_minus_one [of w] by (cases "w = 0") auto

lemma unat_eq_of_nat: "unat c = n \<Longrightarrow> c = of_nat n"
  by auto

text \<open>C40: \<open>block_count\<close> is the number of 2048 byte blocks that hold the extent, as long as the rounding
  does not leave \<open>u32\<close>; an extent within 2048 bytes of 4 GiB makes the sum overflow: a panic with
  overflow checks, and without them a directory of 2097151 blocks or of none.\<close>

theorem block_count_spec:
  "(block_count B self :: ('e, u32) exec) =
    (let n = unat (extent_length (dir_header self)) in
     if n + 2048 < 2 ^ 32 then Ret (of_nat ((n + 2047) div 2048))
     else if overflow_checks B then Panic
     else if n + 2048 = 2 ^ 32 then Ret 2097151
     else Ret 0)"
proof -
  let ?w = "extent_length (dir_header self)"
  let ?n = "unat ?w"
  have "?n < 2 ^ 32" using unsigned_less [of ?w, where 'a = nat] by simp
  then have sum: "unat (?w + 2048) = (if ?n + 2048 < 2 ^ 32 then ?n + 2048 else ?n + 2048 - 2 ^ 32)"
    by (simp add: unat_word_ariths mod_if)
  show ?thesis
  proof (cases "?n + 2048 < 2 ^ 32")
    case True
    then obtain c where "block_count B self = (Ret c :: ('e, u32) exec)" "unat c = (?n + 2047) div 2048"
      using block_count_ceil [of self B] by auto
    moreover from this(2) have "c = of_nat ((?n + 2047) div 2048)" by (rule unat_eq_of_nat)
    ultimately show ?thesis using True by (simp add: Let_def)
  next
    case False
    show ?thesis
    proof (cases "?n + 2048 = 2 ^ 32")
      case True
      then have "?w + 2048 = 0" using sum by (simp add: unat_eq_0)
      then show ?thesis using True by (simp add: block_count_def word_add_def word_sub_def Let_def)
    next
      case gt: False
      then have "unat (?w + 2048) = ?n + 2048 - 2 ^ 32" "0 < unat (?w + 2048)" "unat (?w + 2048) < 2049"
        using False sum \<open>?n < 2 ^ 32\<close> by simp_all
      then have "unat (?w + 2048 - 1) < 2048" by (intro unat_pred_less) simp_all
      then have "(?w + 2048 - 1) div 2048 = 0" by (simp add: unat_eq_0 [symmetric] unat_div)
      then show ?thesis using False gt
        by (simp add: block_count_def word_add_def word_sub_def Let_def)
    qed
  qed
qed

end
