(* ===== verification/Descriptor_Image.thy ===== *)
theory Descriptor_Image
  imports Directory_Image
begin

text \<open>
  Recording a primary volume descriptor as ECMA-119 8.4 lays it out, and what the program reads from it.
  It differs from what is recorded in three places: the year of the four dates, the border between the
  copyright and the abstract file identifier, and dates west of Greenwich.
\<close>

definition enc_str :: "nat \<Rightarrow> ustr \<Rightarrow> u8 list" where
  "enc_str n s = as_bytes s @ replicate (n - length (as_bytes s)) 32"

definition str_ok :: "nat \<Rightarrow> ustr \<Rightarrow> bool" where
  "str_ok n s \<longleftrightarrow> list_all is_scalar s \<and> length (as_bytes s) \<le> n \<and> (s = [] \<or> \<not> is_whitespace (last s))"

lemma length_enc_str: "str_ok n s \<Longrightarrow> length (enc_str n s) = n"
  by (simp add: enc_str_def str_ok_def)

lemma as_bytes_append: "as_bytes (s @ t) = as_bytes s @ as_bytes t"
  by (simp add: as_bytes_def)

lemma as_bytes_spaces: "as_bytes (replicate k 32) = replicate k 32"
  by (induction k) (simp_all add: as_bytes_def utf8_encode_def)

section \<open>Dates\<close>

text \<open>The seventeen bytes of a date (ECMA-119 8.4.26.1): the year in full, month, day, hour, minute, second and
  hundredths of a second as digits, and the offset from Greenwich in quarters of an hour as a signed
  number. A date that is not set has all digits and the offset zero.\<close>

fun digits :: "nat \<Rightarrow> nat \<Rightarrow> u8 list" where
  "digits 0 x = []"
| "digits (Suc n) x = digits n (x div 10) @ [of_nat (48 + x mod 10)]"

definition enc_long_date :: "OffsetDateTime \<Rightarrow> u8 list" where
  "enc_long_date t =
    digits 4 (nat (date_year (odt_date t))) @ digits 2 (date_month (odt_date t)) @ digits 2 (date_day (odt_date t))
    @ digits 2 (time_hour (odt_time t)) @ digits 2 (time_minute (odt_time t)) @ digits 2 (time_second (odt_time t))
    @ digits 2 (time_milli (odt_time t) div 10) @ [word_of_int (odt_offset t div 900)]"

definition midnight :: Time where
  "midnight = \<lparr>time_hour = 0, time_minute = 0, time_second = 0, time_milli = 0\<rparr>"

definition unset_date :: OffsetDateTime where
  "unset_date =
    \<lparr>odt_date = \<lparr>date_year = 0, date_month = 0, date_day = 0\<rparr>, odt_time = midnight, odt_offset = 0\<rparr>"

definition long_date_ok :: "OffsetDateTime \<Rightarrow> bool" where
  "long_date_ok t \<longleftrightarrow>
    t = unset_date
    \<or> 1 \<le> date_year (odt_date t) \<and> date_year (odt_date t) \<le> 9999
      \<and> 1 \<le> date_month (odt_date t) \<and> date_month (odt_date t) \<le> 12
      \<and> 1 \<le> date_day (odt_date t)
      \<and> date_day (odt_date t) \<le> days_in_month (date_year (odt_date t)) (date_month (odt_date t))
      \<and> time_hour (odt_time t) < 24 \<and> time_minute (odt_time t) < 60 \<and> time_second (odt_time t) < 60
      \<and> time_milli (odt_time t) < 1000 \<and> 10 dvd time_milli (odt_time t)
      \<and> - 48 * 900 \<le> odt_offset t \<and> odt_offset t \<le> 52 * 900 \<and> 900 dvd odt_offset t"

text \<open>What the program makes of it: 1900 is added to the year, a date that then does not exist or is beyond
  the year 9999 becomes the first of January of the year 0, as does one that is not set, and an offset west
  of Greenwich is lost.\<close>

definition read_long_date :: "OffsetDateTime \<Rightarrow> OffsetDateTime" where
  "read_long_date t =
    \<lparr>odt_date =
      (let d = odt_date t in
       if 1900 + date_year d \<le> 9999 \<and> 1 \<le> date_day d
         \<and> date_day d \<le> days_in_month (1900 + date_year d) (date_month d)
       then d\<lparr>date_year := 1900 + date_year d\<rparr> else \<lparr>date_year = 0, date_month = 1, date_day = 1\<rparr>),
     odt_time = odt_time t, odt_offset = max 0 (odt_offset t)\<rparr>"

lemma length_digits [simp]: "length (digits n x) = n"
  by (induction n arbitrary: x) simp_all

lemma digits_ascii: "c \<in> set (digits n x) \<Longrightarrow> 48 \<le> unat c \<and> unat c \<le> 57"
proof (induction n arbitrary: x)
  case (Suc n)
  have "x mod 10 < 10" by simp
  then have "unat (of_nat (48 + x mod 10) :: u8) = 48 + x mod 10" by (intro unat_of_nat_u8) simp
  with Suc show ?case by auto
qed simp

lemma parse_digits_digits:
  "x < 10 ^ n \<Longrightarrow> x \<le> bound \<Longrightarrow> parse_digits ovf bound 0 (map unat (digits n x)) = Inr x"
proof (induction n arbitrary: x)
  case (Suc n)
  have "x mod 10 < 10" by simp
  then have last: "unat (of_nat (48 + x mod 10) :: u8) = 48 + x mod 10" by (intro unat_of_nat_u8) simp
  have "x div 10 < 10 ^ n" "x div 10 \<le> bound" using Suc.prems by (auto simp: div_less_iff_less_mult)
  with Suc.IH have "parse_digits ovf bound 0 (map unat (digits n (x div 10))) = Inr (x div 10)" by simp
  moreover have "x div 10 * 10 + x mod 10 = x" by simp
  ultimately show ?case using Suc.prems(2) last by (simp add: parse_digits_append)
qed simp

lemma parse_i32_digits:
  assumes "0 < n" and "x < 10 ^ n" and "x \<le> 2147483647"
  shows "parse_i32 (map unat (digits n x)) = Inr (int x)"
proof (cases "digits n x")
  case Nil
  then have "length (digits n x) = 0" by simp
  with assms(1) show ?thesis by simp
next
  case (Cons c cs)
  then have "48 \<le> unat c \<and> unat c \<le> 57" using digits_ascii [of c n x] by simp
  with Cons parse_digits_digits [OF assms(2,3), of PosOverflow] show ?thesis by (simp add: parse_i32_def)
qed

context linked begin

lemma ascii_i32_digits:
  assumes "0 < n" and "x < 10 ^ n" and "x \<le> 2147483647"
  shows "ascii_i32 B n (digits n x @ r) = Ret (r, int x)"
proof -
  have "from_utf8 (digits n x) = Some (map unat (digits n x))"
    using digits_ascii [of _ n x] by (intro from_utf8_ascii) (fastforce simp: list_all_iff)
  then show ?thesis
    using parse_i32_digits [OF assms] by (simp add: ascii_i32_def ascii_digits_def take_spec_def)
qed

lemma date_time_ascii_enc:
  assumes "long_date_ok t"
  shows "date_time_ascii B (enc_long_date t @ r) = Ret (r, read_long_date t)"
proof -
  obtain y m d h mi s ms z where t: "t = \<lparr>odt_date = \<lparr>date_year = y, date_month = m, date_day = d\<rparr>,
      odt_time = \<lparr>time_hour = h, time_minute = mi, time_second = s, time_milli = ms\<rparr>, odt_offset = z\<rparr>"
    by (cases t; cases "odt_date t"; cases "odt_time t") auto
  have ok: "0 \<le> y" "y \<le> 9999" "m \<le> 12" "d \<le> 31" "h < 24" "mi < 60" "s < 60" "ms < 1000"
    "10 dvd ms" "- 43200 \<le> z" "z \<le> 46800" "900 dvd z" "1 \<le> m \<or> d = 0"
    using assms days_in_month_bound [of y m] by (auto simp: long_date_ok_def unset_date_def midnight_def t)
  obtain k where k: "z = 900 * k" "- 48 \<le> k" "k \<le> 52" using ok(10-12) by (auto elim!: dvdE)
  obtain c where c: "ms = 10 * c" "c < 100" using ok(8,9) by (auto elim!: dvdE)
  obtain n where n: "y = int n" "n < 10000" using ok(1,2) by (intro that [of "nat y"]) auto
  have small: "unat (of_nat m :: u8) = m" "unat (of_nat d :: u8) = d" "unat (of_nat h :: u8) = h"
    "unat (of_nat mi :: u8) = mi" "unat (of_nat s :: u8) = s"
    using ok by (simp_all add: unat_of_nat_u8)
  have ms: "unat (of_nat ms :: u16) = ms" using ok(8) by (simp add: unat_of_nat)
  have milli: "word_mul B (of_nat c :: u16) 10 = (Ret (of_nat ms) :: (nom_err, _) exec)"
    using c by (simp add: word_mul_def unat_of_nat)
  have offset: "decode_offset B (word_of_int k) = max 0 z"
    using decode_offset_quarters [OF k(2,3)] k by auto
  define D where "D = odt_date (read_long_date t)"
  have target: "read_long_date t = \<lparr>odt_date = D,
      odt_time = \<lparr>time_hour = h, time_minute = mi, time_second = s, time_milli = ms\<rparr>, odt_offset = max 0 z\<rparr>"
    unfolding D_def by (simp add: read_long_date_def t)
  have date: "(case calendar_spec (1900 + y) (if 1 \<le> m then m else 1) (of_nat d) of
      None \<Rightarrow> \<lparr>date_year = 0, date_month = 1, date_day = 1\<rparr> | Some d \<Rightarrow> d) = D"
    unfolding D_def using ok small by (auto simp: calendar_spec_def read_long_date_def t Let_def)
  have time: "hms_spec (of_nat h) (of_nat mi) (of_nat s) (of_nat ms) =
      Some \<lparr>time_hour = h, time_minute = mi, time_second = s, time_milli = ms\<rparr>"
    using ok small ms by (simp add: hms_spec_def)
  have parts: "ascii_i32 B 4 (digits 4 n @ q) = Ret (q, y)" "ascii_i32 B 2 (digits 2 m @ q) = Ret (q, int m)"
    "ascii_i32 B 2 (digits 2 d @ q) = Ret (q, int d)" "ascii_i32 B 2 (digits 2 h @ q) = Ret (q, int h)"
    "ascii_i32 B 2 (digits 2 mi @ q) = Ret (q, int mi)" "ascii_i32 B 2 (digits 2 s @ q) = Ret (q, int s)"
    "ascii_i32 B 2 (digits 2 c @ q) = Ret (q, int c)" for q
    using ok n c by (simp_all add: ascii_i32_digits)
  have month: "(case month_try_from B (of_nat m) of Some m \<Rightarrow> m | None \<Rightarrow> 1) = (if 1 \<le> m then m else 1)"
    using ok(3) small(1) by simp
  note date = date [folded month]
  have bytes: "enc_long_date t = digits 4 n @ digits 2 m @ digits 2 d @ digits 2 h @ digits 2 mi @ digits 2 s
      @ digits 2 c @ [word_of_int k]"
    using n(1) c(1) k(1) by (simp add: enc_long_date_def t)
  show ?thesis
    unfolding bytes target
    by (simp add: date_time_ascii_def parts date_or_default_eq time_or_default_eq milli time date offset [unfolded decode_offset_def, simplified] del: and_then_eq_Ret month_try_from)
qed

end

section \<open>The descriptor\<close>

text \<open>What the block holds besides the fields the program keeps: the locations of the path tables with big
  endian numbers, and the bytes for the use of the application.\<close>

record primary_rest =
  type_m_path_table_loc :: u32
  optional_type_m_path_table_loc :: u32
  application_use :: "u8 list"

definition enc_table :: "VolumeDescriptorTable \<Rightarrow> primary_rest \<Rightarrow> u8 list" where
  "enc_table t x =
    [0] @ enc_str 32 (system_identifier t) @ enc_str 32 (volume_identifier t) @ replicate 8 0
    @ enc_both 4 (volume_space_size t) @ replicate 32 0
    @ enc_both 2 (volume_set_size t) @ enc_both 2 (volume_sequence_number t)
    @ enc_both 2 (logical_block_size t) @ enc_both 4 (path_table_size t)
    @ le_bytes 4 (unat (path_table_loc t)) @ le_bytes 4 (unat (optional_path_table_loc t))
    @ rev (le_bytes 4 (unat (type_m_path_table_loc x))) @ rev (le_bytes 4 (unat (optional_type_m_path_table_loc x)))
    @ enc_dir_record (root_directory_entry t) [0] []
    @ enc_str 128 (volume_set_identifier t) @ enc_str 128 (publisher_identifier t)
    @ enc_str 128 (data_preparer_identifier t) @ enc_str 128 (application_identifier t)
    @ enc_str 37 (copyright_file_identifier t) @ enc_str 37 (abstract_file_identifier t)
    @ enc_str 37 (bibliographic_file_identifier t)
    @ enc_long_date (vd_creation_time t) @ enc_long_date (vd_modification_time t)
    @ enc_long_date (vd_expiration_time t) @ enc_long_date (vd_effective_time t)
    @ [file_structure_version t]"

definition table_ok :: "VolumeDescriptorTable \<Rightarrow> bool" where
  "table_ok t \<longleftrightarrow>
    str_ok 32 (system_identifier t) \<and> str_ok 32 (volume_identifier t)
    \<and> vd_character_encoding t = Iso9660
    \<and> header_ok (root_directory_entry t) [0] []
    \<and> de_character_encoding (root_directory_entry t) = Iso9660
    \<and> root_directory_entry_identifier t = [0]
    \<and> str_ok 128 (volume_set_identifier t) \<and> str_ok 128 (publisher_identifier t)
    \<and> str_ok 128 (data_preparer_identifier t) \<and> str_ok 128 (application_identifier t)
    \<and> str_ok 37 (copyright_file_identifier t) \<and> str_ok 37 (abstract_file_identifier t)
    \<and> list_all (\<lambda>c. c < 0x80) (take 1 (abstract_file_identifier t))
    \<and> str_ok 37 (bibliographic_file_identifier t)
    \<and> long_date_ok (vd_creation_time t) \<and> long_date_ok (vd_modification_time t)
    \<and> long_date_ok (vd_expiration_time t) \<and> long_date_ok (vd_effective_time t)"

text \<open>What is read where \<open>t\<close> is recorded. The program takes 38 bytes for the copyright file identifier and 36
  for the abstract file identifier, where ECMA-119 8.4.20 and 8.4.21 have 37 for each: the first character of
  the latter ends up, after the padding, in the former.\<close>

definition read_table :: "VolumeDescriptorTable \<Rightarrow> VolumeDescriptorTable" where
  "read_table t = t
    \<lparr>root_directory_entry := read_header (root_directory_entry t),
     copyright_file_identifier :=
       trim_end (copyright_file_identifier t
         @ replicate (37 - length (as_bytes (copyright_file_identifier t))) 32
         @ take 1 (abstract_file_identifier t)),
     abstract_file_identifier := drop 1 (abstract_file_identifier t),
     vd_creation_time := read_long_date (vd_creation_time t),
     vd_modification_time := read_long_date (vd_modification_time t),
     vd_expiration_time := read_long_date (vd_expiration_time t),
     vd_effective_time := read_long_date (vd_effective_time t)\<rparr>"

context linked_susp begin

lemma decode_string_enc:
  assumes "str_ok n s"
  shows "decode_string B Iso9660 (enc_str n s) = Ret ([], s)"
proof -
  let ?k = "n - length (as_bytes s)"
  have "enc_str n s = as_bytes (s @ replicate ?k 32)"
    by (simp add: enc_str_def as_bytes_append as_bytes_spaces)
  moreover have "from_utf8 (as_bytes (s @ replicate ?k 32)) = Some (s @ replicate ?k 32)"
    using assms by (intro from_utf8_as_bytes) (auto simp: str_ok_def list_all_iff is_scalar_def)
  moreover have "trim_end (s @ replicate ?k 32) = s"
    using assms by (subst trim_end_append_ws) (auto simp: str_ok_def is_whitespace_def list_all_iff trim_end_last)
  ultimately show ?thesis by (simp add: decode_string_iso)
qed

lemma take_enc_str: "str_ok n s \<Longrightarrow> take_spec n (enc_str n s @ r) = Ret (r, enc_str n s)"
  by (simp add: length_enc_str)

lemma le_u32_enc: "le_spec 4 (le_bytes 4 (unat w) @ r) = Ret (r, w :: u32)"
  using unsigned_less [of w, where 'a = nat] by (simp add: le_nat_le_bytes)

lemma character_encoding_zero: "character_encoding B (replicate 32 0 @ r) = Ret (r, Iso9660)"
proof -
  have "replicate 32 (0 :: u8) = 0 # replicate 31 0" by (simp add: numeral_eq_Suc)
  then have miss: "value_of v (tag_spec [0x25, b, c]) (replicate 32 0 @ r) = Throw (NomError Tag)"
    for v :: CharacterEncoding and b c
    by (simp add: value_of_def tag_spec_def)
  have hit: "value_of Iso9660 (tag_spec (replicate 32 0)) (replicate 32 0 @ r) = Ret (r, Iso9660)"
    unfolding value_of_def tag_spec_append by simp
  show ?thesis
    by (simp add: character_encoding_def usize_sub_def miss hit Let_def del: and_then_eq_Ret)
qed

text \<open>The border between the copyright and the abstract file identifier.\<close>

lemma enc_str_37: "str_ok 37 a \<Longrightarrow> list_all (\<lambda>c. c < 0x80) (take 1 a) \<Longrightarrow>
    enc_str 37 a = (case a of [] \<Rightarrow> 32 | c # _ \<Rightarrow> of_nat c) # enc_str 36 (drop 1 a)"
proof (cases a)
  case Nil
  have "replicate 37 (32 :: u8) = 32 # replicate 36 32" using replicate_Suc [of 36 "32 :: u8"] by simp
  then show ?thesis unfolding Nil by (simp add: enc_str_def as_bytes_def)
next
  case (Cons c cs)
  assume "str_ok 37 a" "list_all (\<lambda>c. c < 0x80) (take 1 a)"
  then have "as_bytes a = of_nat c # as_bytes cs" by (simp add: Cons as_bytes_def utf8_encode_def)
  then show ?thesis by (simp add: Cons enc_str_def)
qed

lemma str_ok_tl: "str_ok 37 a \<Longrightarrow> list_all (\<lambda>c. c < 0x80) (take 1 a) \<Longrightarrow> str_ok 36 (drop 1 a)"
  by (cases a) (auto simp: str_ok_def as_bytes_def utf8_encode_def split: if_splits)

lemma decode_border:
  assumes c: "str_ok 37 c" and a: "str_ok 37 a" "list_all (\<lambda>c. c < 0x80) (take 1 a)"
  shows "decode_string B Iso9660 (enc_str 37 c @ [case a of [] \<Rightarrow> 32 | x # _ \<Rightarrow> of_nat x]) =
    Ret ([], trim_end (c @ replicate (37 - length (as_bytes c)) 32 @ take 1 a))"
proof -
  let ?k = "37 - length (as_bytes c)"
  let ?s = "c @ replicate ?k 32 @ (case a of [] \<Rightarrow> [32] | x # _ \<Rightarrow> [x])"
  have "enc_str 37 c @ [case a of [] \<Rightarrow> 32 | x # _ \<Rightarrow> of_nat x] = as_bytes ?s"
    using a(2) by (cases a) (simp_all add: enc_str_def as_bytes_append as_bytes_spaces as_bytes_def utf8_encode_def)
  moreover have "from_utf8 (as_bytes ?s) = Some ?s"
    using c a by (intro from_utf8_as_bytes) (auto simp: str_ok_def list_all_iff is_scalar_def split: list.splits)
  moreover have "trim_end ?s = trim_end (c @ replicate ?k 32 @ take 1 a)"
    using trim_end_append_ws [of "[32]" "c @ replicate ?k 32"] by (cases a) (simp_all add: is_whitespace_def)
  ultimately show ?thesis by (simp add: decode_string_iso)
qed

lemma take_border:
  assumes "str_ok 37 c" and "str_ok 37 a" "list_all (\<lambda>c. c < 0x80) (take 1 a)"
  shows "take_spec 38 (enc_str 37 c @ enc_str 37 a @ r) =
      Ret (enc_str 36 (drop 1 a) @ r, enc_str 37 c @ [case a of [] \<Rightarrow> 32 | x # _ \<Rightarrow> of_nat x])"
  unfolding enc_str_37 [OF assms(2,3)] using length_enc_str [OF assms(1)]
  by (simp add: take_spec_def)

lemma take_one: "take_spec (Suc 0) (b # r) = Ret (r, [b])"
  by simp

lemma take_unused:
  "take_spec 4 (rev (le_bytes 4 x) @ r) = Ret (r, rev (le_bytes 4 x))"
  by simp

lemma root_record_enc:
  assumes "header_ok h [0] []" and "de_character_encoding h = Iso9660"
  shows "directory_entry B (enc_dir_record h [0] [] @ r) Iso9660 = Ret (r, read_header h, [0], None)"
proof -
  have "identifier_string B Iso9660 [0] = Ret ([], [0])"
    by (simp add: identifier_string_def value_of_def tag_spec_def)
  moreover have "opt_spec (system_use_entries B) [] = Ret ([], None)"
    by (simp add: opt_spec_def system_use_entries_def many1_spec_def system_use_entries_Nil)
  ultimately show ?thesis
    using directory_entry_enc [OF assms(1), where r = r] assms(2) by simp
qed

lemma descriptor_table_enc:
  assumes ok: "table_ok t"
  shows "descriptor_table B (enc_table t x @ r) = Ret (r, read_table t)"
  using assms
  by (simp add: descriptor_table_def enc_table_def table_ok_def take_enc_str decode_string_enc
      both_endian32_enc both_endian16_enc le_u32_enc character_encoding_zero root_record_enc date_time_ascii_enc
      take_one take_unused take_border decode_border str_ok_tl [simplified] read_table_def del: and_then_eq_Ret)

end

section \<open>Recorded descriptors\<close>

text \<open>A primary volume descriptor and the terminator, as blocks.\<close>

definition enc_primary :: "VolumeDescriptorTable \<Rightarrow> primary_rest \<Rightarrow> u8 list" where
  "enc_primary t x = 1 # CD001 @ enc_table t x @ [0] @ application_use x @ replicate 653 0"

definition primary_ok :: "VolumeDescriptorTable \<Rightarrow> primary_rest \<Rightarrow> bool" where
  "primary_ok t x \<longleftrightarrow> table_ok t \<and> length (application_use x) = 512"

definition enc_terminator :: "u8 list" where
  "enc_terminator = 255 # CD001 @ replicate 2041 0"

lemma length_enc_long_date [simp]: "length (enc_long_date t) = 17"
  by (simp add: enc_long_date_def)

lemma length_enc_primary: "primary_ok t x \<Longrightarrow> length (enc_primary t x) = 2048"
proof -
  assume ok: "primary_ok t x"
  then have "length (enc_dir_record (root_directory_entry t) [0] []) = 34"
    using length_enc_dir_record [of "root_directory_entry t" "[0]" "[]"]
    by (simp add: primary_ok_def table_ok_def header_ok_def)
  then show ?thesis using ok
    by (simp add: enc_primary_def primary_ok_def enc_table_def table_ok_def length_enc_str CD001_def)
qed

lemma length_enc_terminator: "length enc_terminator = 2048"
  by (simp add: enc_terminator_def CD001_def)

context linked_susp begin

lemma enc_primary_parse:
  "primary_ok t x \<Longrightarrow> VolumeDescriptor_parse B (enc_primary t x) = Ret (Some (Primary (read_table t)))"
  using descriptor_table_enc [of t x "[0] @ application_use x @ replicate 653 0"]
  by (simp add: primary_ok_def enc_primary_def VolumeDescriptor_parse_def volume_descriptor_def
      primary_descriptor_def del: and_then_eq_Ret)

lemma enc_terminator_parse:
  "VolumeDescriptor_parse B enc_terminator = Ret (Some VolumeDescriptorSetTerminator)"
  unfolding enc_terminator_def by (rule VolumeDescriptor_parse_terminator)

end

end
