(* ===== verification/Iso9660.thy ===== *)
theory Iso9660
  imports Descriptor_Image
begin

text \<open>
  \<open>ISO9660\<close> of \<open>cdfs/src/lib.rs\<close>: opening an image (the loop over the volume descriptors), the choice
  of the root directory, opening a path, and the properties of the primary volume descriptor.
\<close>

record ISO9660 =
  iso_root :: ISODirectory
  iso_sup_root :: "ISODirectory option"
  iso_primary :: VolumeDescriptor

text \<open>The variables of the loop in \<open>ISO9660::new\<close>.\<close>

record new_state =
  ns_root :: "(DirectoryEntryHeader \<times> ustr) option"
  ns_primary :: "VolumeDescriptor option"
  ns_sup_root :: "(DirectoryEntryHeader \<times> ustr) option"

definition new_state_init :: new_state where
  "new_state_init = \<lparr>ns_root = None, ns_primary = None, ns_sup_root = None\<rparr>"

definition root_of_table :: "VolumeDescriptorTable \<Rightarrow> DirectoryEntryHeader \<times> ustr" where
  "root_of_table table = (root_directory_entry table, root_directory_entry_identifier table)"

text \<open>The \<open>match\<close> on a descriptor: whether the loop is left, and the variables.\<close>

definition descriptor_step ::
    "VolumeDescriptor option \<Rightarrow> new_state \<Rightarrow> (ISOError, bool \<times> new_state) exec" where
  "descriptor_step descriptor st =
    (case descriptor of
       Some (Primary table) \<Rightarrow>
         if unat (logical_block_size table) \<noteq> BLOCK_SIZE then Throw (InvalidFs ''Block size not 2048'')
         else Ret (False, st\<lparr>ns_root := Some (root_of_table table), ns_primary := descriptor\<rparr>)
     | Some (Supplementary table) \<Rightarrow>
         if unat (logical_block_size table) \<noteq> BLOCK_SIZE then Throw (InvalidFs ''Block size not 2048'')
         else Ret (False, st\<lparr>ns_sup_root := Some (root_of_table table)\<rparr>)
     | Some VolumeDescriptorSetTerminator \<Rightarrow> Ret (True, st)
     | _ \<Rightarrow> Ret (False, st))"

partial_function (option) descriptor_loop ::
    "'z susp_build_scheme \<Rightarrow> 'r reader \<Rightarrow> u64 \<Rightarrow> u8 list \<Rightarrow> new_state \<Rightarrow> 'r \<Rightarrow>
     ((ISOError, new_state) exec \<times> 'r) option" where
  "descriptor_loop B rd lba buf st r =
    (case rd r buf lba of
       (Ret n, buf, r) \<Rightarrow>
         if n \<noteq> BLOCK_SIZE then Some (Throw (ReadSize n), r)
         else
           (case and_then (VolumeDescriptor_parse B buf) (\<lambda>descriptor. descriptor_step descriptor st) of
              Ret (stop, st) \<Rightarrow>
                if stop then Some (Ret st, r) else descriptor_loop B rd (lba + 1) buf st r
            | Throw e \<Rightarrow> Some (Throw e, r)
            | Panic \<Rightarrow> Some (Panic, r)
            | Hang \<Rightarrow> Some (Hang, r))
     | (Throw e, buf, r) \<Rightarrow> Some (Throw (Io e), r)
     | (Panic, buf, r) \<Rightarrow> Some (Panic, r)
     | (Hang, buf, r) \<Rightarrow> Some (Hang, r))"

definition finish_new :: "new_state \<Rightarrow> (ISOError, ISO9660) exec" where
  "finish_new st =
    (case (ns_root st, ns_primary st) of
       (Some root, Some primary) \<Rightarrow>
         Ret \<lparr>iso_root = ISODirectory_new (fst root) ExtraMeta_default (snd root),
              iso_sup_root = map_option (\<lambda>sup_root.
                ISODirectory_new (fst sup_root) ExtraMeta_default (snd sup_root)) (ns_sup_root st),
              iso_primary = primary\<rparr>
     | _ \<Rightarrow> Throw (InvalidFs ''No primary volume descriptor''))"

definition ISO9660_new ::
    "'z susp_build_scheme \<Rightarrow> 'r reader \<Rightarrow> 'r \<Rightarrow> (ISOError, ISO9660) exec \<times> 'r" where
  "ISO9660_new B rd r =
    (case descriptor_loop B rd 16 BlockBuffer_new new_state_init r of
       Some (res, r) \<Rightarrow> (and_then res finish_new, r)
     | None \<Rightarrow> (Hang, r))"

definition is_rr :: "'z susp_build_scheme \<Rightarrow> 'r reader \<Rightarrow> ISO9660 \<Rightarrow> 'r \<Rightarrow> (ISOError, bool) exec \<times> 'r" where
  "is_rr B rd self r =
    (case iterator_next B rd (contents (iso_root self)) r of
       (Some (Ret (Directory dirent)), _, r) \<Rightarrow> (Ret (is_rock_ridge dirent), r)
     | (Some Panic, _, r) \<Rightarrow> (Panic, r)
     | (Some Hang, _, r) \<Rightarrow> (Hang, r)
     | (_, _, r) \<Rightarrow> (Ret False, r))"

definition ISO9660_root ::
    "'z susp_build_scheme \<Rightarrow> 'r reader \<Rightarrow> ISO9660 \<Rightarrow> 'r \<Rightarrow> (ISOError, ISODirectory) exec \<times> 'r" where
  "ISO9660_root B rd self r =
    (case is_rr B rd self r of
       (res, r) \<Rightarrow>
         (and_then res (\<lambda>rr.
            if rr then Ret (iso_root self)
            else (case iso_sup_root self of Some sup_root \<Rightarrow> Ret sup_root | None \<Rightarrow> Ret (iso_root self))), r))"

definition ISO9660_open ::
    "'z susp_build_scheme \<Rightarrow> 'r reader \<Rightarrow> ISO9660 \<Rightarrow> ustr \<Rightarrow> 'r \<Rightarrow>
     (ISOError, DirectoryEntry option) exec \<times> 'r" where
  "ISO9660_open B rd self path r =
    (case ISO9660_root B rd self r of
       (Ret root, r) \<Rightarrow> find_recursive B rd root path r
     | (Throw e, r) \<Rightarrow> (Throw e, r)
     | (Panic, r) \<Rightarrow> (Panic, r)
     | (Hang, r) \<Rightarrow> (Hang, r))"

definition root_at :: "ISO9660 \<Rightarrow> usize \<Rightarrow> ('e, ISODirectory option) exec" where
  "root_at self index =
    (if index = 0 then Ret (Some (iso_root self))
     else if index = 1 then Ret (iso_sup_root self)
     else Panic)"

definition block_size :: "ISO9660 \<Rightarrow> u16" where
  "block_size self = 2048"

text \<open>The macro \<open>primary_prop_str\<close> and its seven uses.\<close>

definition primary_prop_str :: "(VolumeDescriptorTable \<Rightarrow> ustr) \<Rightarrow> ISO9660 \<Rightarrow> ('e, ustr) exec" where
  "primary_prop_str name self =
    (case iso_primary self of Primary table \<Rightarrow> Ret (name table) | _ \<Rightarrow> Panic)"

definition iso_volume_set_identifier :: "ISO9660 \<Rightarrow> ('e, ustr) exec" where
  "iso_volume_set_identifier = primary_prop_str volume_set_identifier"

definition iso_publisher_identifier :: "ISO9660 \<Rightarrow> ('e, ustr) exec" where
  "iso_publisher_identifier = primary_prop_str publisher_identifier"

definition iso_data_preparer_identifier :: "ISO9660 \<Rightarrow> ('e, ustr) exec" where
  "iso_data_preparer_identifier = primary_prop_str data_preparer_identifier"

definition iso_application_identifier :: "ISO9660 \<Rightarrow> ('e, ustr) exec" where
  "iso_application_identifier = primary_prop_str application_identifier"

definition iso_copyright_file_identifier :: "ISO9660 \<Rightarrow> ('e, ustr) exec" where
  "iso_copyright_file_identifier = primary_prop_str copyright_file_identifier"

definition iso_abstract_file_identifier :: "ISO9660 \<Rightarrow> ('e, ustr) exec" where
  "iso_abstract_file_identifier = primary_prop_str abstract_file_identifier"

definition iso_bibliographic_file_identifier :: "ISO9660 \<Rightarrow> ('e, ustr) exec" where
  "iso_bibliographic_file_identifier = primary_prop_str bibliographic_file_identifier"

section \<open>What a new instance is\<close>

text \<open>The instance shows a primary descriptor with blocks of 2048 bytes, and its root is the one of
  that descriptor.\<close>

definition iso_ok :: "ISO9660 \<Rightarrow> bool" where
  "iso_ok isofs \<longleftrightarrow>
    (case iso_primary isofs of
       Primary t \<Rightarrow> unat (logical_block_size t) = BLOCK_SIZE
         \<and> iso_root isofs = ISODirectory_new (root_directory_entry t) ExtraMeta_default
             (root_directory_entry_identifier t)
     | _ \<Rightarrow> False)"

definition new_state_ok :: "new_state \<Rightarrow> bool" where
  "new_state_ok st \<longleftrightarrow>
    (case ns_primary st of
       None \<Rightarrow> ns_root st = None
     | Some (Primary t) \<Rightarrow> unat (logical_block_size t) = BLOCK_SIZE \<and> ns_root st = Some (root_of_table t)
     | Some _ \<Rightarrow> False)"

lemma descriptor_step_ok:
  "descriptor_step d st = Ret (stop, st') \<Longrightarrow> new_state_ok st \<Longrightarrow> new_state_ok st'"
  by (auto simp: descriptor_step_def new_state_ok_def split: option.splits VolumeDescriptor.splits if_splits)

lemma descriptor_loop_ok:
  assumes "descriptor_loop B rd lba buf st r = Some (Ret st', r')" and "new_state_ok st"
  shows "new_state_ok st'"
proof -
  have "\<forall>st'. fst y = Ret st' \<longrightarrow> new_state_ok st \<longrightarrow> new_state_ok st'"
    if "descriptor_loop B rd lba buf st r = Some y" for B and rd :: "'r reader" and lba buf st r y
    using _ that
  proof (rule descriptor_loop.raw_induct)
    fix loop :: "_ \<Rightarrow> 'r reader \<Rightarrow> _" and B rd lba buf st r y
    assume IH: "\<And>B rd lba buf st r y. loop B rd lba buf st r = Some y \<Longrightarrow>
        \<forall>st'. fst y = Ret st' \<longrightarrow> new_state_ok st \<longrightarrow> new_state_ok st'"
      and body: "(case rd r buf lba of
       (Ret n, buf, r) \<Rightarrow>
         if n \<noteq> BLOCK_SIZE then Some (Throw (ReadSize n), r)
         else
           (case and_then (VolumeDescriptor_parse B buf) (\<lambda>descriptor. descriptor_step descriptor st) of
              Ret (stop, st) \<Rightarrow>
                if stop then Some (Ret st, r) else loop B rd (lba + 1) buf st r
            | Throw e \<Rightarrow> Some (Throw e, r)
            | Panic \<Rightarrow> Some (Panic, r)
            | Hang \<Rightarrow> Some (Hang, r))
     | (Throw e, buf, r) \<Rightarrow> Some (Throw (Io e), r)
     | (Panic, buf, r) \<Rightarrow> Some (Panic, r)
     | (Hang, buf, r) \<Rightarrow> Some (Hang, r)) = Some y"
    show "\<forall>st'. fst y = Ret st' \<longrightarrow> new_state_ok st \<longrightarrow> new_state_ok st'"
    proof (intro allI impI)
      fix st' assume y: "fst y = Ret st'" and ok: "new_state_ok st"
      from body y obtain buf1 r1 stop st1 d where step: "descriptor_step d st = Ret (stop, st1)"
        and rest: "if stop then y = (Ret st1, r1) else loop B rd (lba + 1) buf1 st1 r1 = Some y"
        by (auto split: prod.splits exec.splits if_splits)
      from descriptor_step_ok [OF step ok] have "new_state_ok st1" .
      with rest y IH show "new_state_ok st'" by (cases stop) auto
    qed
  qed
  with assms show ?thesis by fastforce
qed

lemma finish_new_ok: "finish_new st = Ret isofs \<Longrightarrow> new_state_ok st \<Longrightarrow> iso_ok isofs"
  by (auto simp: finish_new_def iso_ok_def new_state_ok_def root_of_table_def
      split: option.splits VolumeDescriptor.splits)

lemma ISO9660_new_ok:
  assumes "ISO9660_new B rd r = (Ret isofs, r')"
  shows "iso_ok isofs"
proof -
  from assms obtain st where "descriptor_loop B rd 16 BlockBuffer_new new_state_init r = Some (Ret st, r')"
    and fin: "finish_new st = Ret isofs"
    by (auto simp: ISO9660_new_def split: option.splits prod.splits)
  from descriptor_loop_ok [OF this(1)] have "new_state_ok st"
    by (simp add: new_state_ok_def new_state_init_def)
  with fin show ?thesis by (rule finish_new_ok)
qed

section \<open>Opening an image\<close>

definition descriptor_at ::
    "'z susp_build_scheme \<Rightarrow> u8 list \<Rightarrow> u64 \<Rightarrow> (ISOError, VolumeDescriptor option) exec" where
  "descriptor_at B img lba =
    (let block = img_at img (lba * BLOCK_SIZE) BLOCK_SIZE in
     if length block \<noteq> BLOCK_SIZE then Throw (ReadSize (length block)) else VolumeDescriptor_parse B block)"

text \<open>The descriptors one after the other, until the terminator.\<close>

fun scan_descriptors :: "VolumeDescriptor option list \<Rightarrow> new_state \<Rightarrow> (ISOError, new_state) exec" where
  "scan_descriptors [] st = Ret st"
| "scan_descriptors (d # ds) st =
    and_then (descriptor_step d st) (\<lambda>(stop, st). if stop then Ret st else scan_descriptors ds st)"

context image_directory begin

lemma read_descriptor:
  assumes "inv r" and "length buf = BLOCK_SIZE" and "lba < 2 ^ 53"
  shows "\<exists>buf' r'. inv r' \<and> length buf' = BLOCK_SIZE \<and>
    rd r buf lba = (Ret (length (img_at img (lba * BLOCK_SIZE) BLOCK_SIZE)), buf', r') \<and>
    (length (img_at img (lba * BLOCK_SIZE) BLOCK_SIZE) = BLOCK_SIZE \<longrightarrow>
       buf' = img_at img (lba * BLOCK_SIZE) BLOCK_SIZE)"
proof -
  obtain r' where "inv r'" "FileRef_read_at rd r buf lba =
      (Ret (length (img_at img (lba * BLOCK_SIZE) (length buf))),
       img_at img (lba * BLOCK_SIZE) (length buf)
         @ drop (length (img_at img (lba * BLOCK_SIZE) (length buf))) buf, r')"
    by (rule FileRef_read_imageE [OF assms(1,3)])
  moreover have "length (img_at img (lba * BLOCK_SIZE) BLOCK_SIZE) \<le> BLOCK_SIZE" by (simp add: length_img_at)
  ultimately show ?thesis using assms(2) by (auto simp: FileRef_read_at_def)
qed

lemma descriptor_loop_step:
  assumes "inv r" and "length buf = BLOCK_SIZE" and "lba < 2 ^ 53"
  shows "\<exists>buf' r'. inv r' \<and> length buf' = BLOCK_SIZE \<and> descriptor_loop B rd lba buf st r =
    (case and_then (descriptor_at B img lba) (\<lambda>d. descriptor_step d st) of
       Ret (stop, st) \<Rightarrow> if stop then Some (Ret st, r') else descriptor_loop B rd (lba + 1) buf' st r'
     | Throw e \<Rightarrow> Some (Throw e, r')
     | Panic \<Rightarrow> Some (Panic, r')
     | Hang \<Rightarrow> Some (Hang, r'))"
proof -
  from read_descriptor [OF assms] obtain buf' r' where r': "inv r'" "length buf' = BLOCK_SIZE"
    "rd r buf lba = (Ret (length (img_at img (lba * BLOCK_SIZE) BLOCK_SIZE)), buf', r')"
    "length (img_at img (lba * BLOCK_SIZE) BLOCK_SIZE) = BLOCK_SIZE \<longrightarrow>
       buf' = img_at img (lba * BLOCK_SIZE) BLOCK_SIZE" by blast
  then show ?thesis
    by (intro exI [of _ buf'] exI [of _ r'])
      (subst descriptor_loop.simps, auto simp: descriptor_at_def Let_def)
qed

lemma descriptor_loop_total:
  assumes "length img < 2 ^ 63" and "inv r" and "length buf = BLOCK_SIZE" and "lba < 2 ^ 53"
  shows "\<exists>res r'. descriptor_loop B rd lba buf st r = Some (res, r') \<and> inv r' \<and> res \<noteq> Hang"
  using assms(2-4)
proof (induction "2 ^ 53 - lba" arbitrary: lba buf st r)
  case (Suc n)
  obtain buf' r' where step: "inv r'" "length buf' = BLOCK_SIZE" "descriptor_loop B rd lba buf st r =
    (case and_then (descriptor_at B img lba) (\<lambda>d. descriptor_step d st) of
       Ret (stop, st) \<Rightarrow> if stop then Some (Ret st, r') else descriptor_loop B rd (lba + 1) buf' st r'
     | Throw e \<Rightarrow> Some (Throw e, r')
     | Panic \<Rightarrow> Some (Panic, r')
     | Hang \<Rightarrow> Some (Hang, r'))" using descriptor_loop_step [OF Suc.prems] by blast
  show ?case
  proof (cases "and_then (descriptor_at B img lba) (\<lambda>d. descriptor_step d st)")
    case (Ret x)
    then obtain stop st' where x: "x = (stop, st')" by (cases x)
    from Ret have "length (img_at img (lba * BLOCK_SIZE) BLOCK_SIZE) = BLOCK_SIZE"
      by (auto simp: descriptor_at_def Let_def split: if_splits)
    then have "(lba + 1) * BLOCK_SIZE \<le> length img" by (simp add: length_img_at)
    then have "lba + 1 < 2 ^ 53" using assms(1) by simp
    with Suc.hyps(1) [of "lba + 1" r' buf' st'] Suc.hyps(2) step Ret x show ?thesis by (cases stop) auto
  next
    case Hang
    moreover have "descriptor_step d st \<noteq> Hang" for d
      by (auto simp: descriptor_step_def split: option.splits VolumeDescriptor.splits)
    ultimately have False
      by (auto simp: and_then_eq_Hang descriptor_at_def Let_def VolumeDescriptor_parse_ends split: if_splits)
    then show ?thesis ..
  qed (use step in auto)
qed simp

lemma descriptor_loop_scan:
  assumes "\<And>i. i < length ds \<Longrightarrow> descriptor_at B img (lba + i) = Ret (ds ! i)"
    and "descriptor_at B img (lba + length ds) = Ret (Some VolumeDescriptorSetTerminator)"
    and "inv r" and "length buf = BLOCK_SIZE" and "lba + length ds < 2 ^ 53"
  shows "\<exists>r'. inv r' \<and> descriptor_loop B rd lba buf st r = Some (scan_descriptors ds st, r')"
  using assms
proof (induction ds arbitrary: lba buf st r)
  case Nil
  from descriptor_loop_step [OF Nil.prems(3,4), of lba st] Nil.prems(2,5) show ?case
    by (auto simp: descriptor_step_def)
next
  case (Cons d ds)
  have d: "descriptor_at B img lba = Ret d" using Cons.prems(1) [of 0] by simp
  from descriptor_loop_step [OF Cons.prems(3,4), of lba st] Cons.prems(5) obtain buf' r' where
    step: "inv r'" "length buf' = BLOCK_SIZE" "descriptor_loop B rd lba buf st r =
    (case descriptor_step d st of
       Ret (stop, st) \<Rightarrow> if stop then Some (Ret st, r') else descriptor_loop B rd (lba + 1) buf' st r'
     | Throw e \<Rightarrow> Some (Throw e, r')
     | Panic \<Rightarrow> Some (Panic, r')
     | Hang \<Rightarrow> Some (Hang, r'))" by (auto simp: d)
  have "\<exists>r''. inv r'' \<and> descriptor_loop B rd (lba + 1) buf' st' r' = Some (scan_descriptors ds st', r'')" for st'
    by (rule Cons.IH) (use Cons.prems(1) [of "Suc _"] Cons.prems(2,5) step in auto)
  then show ?case using step by (cases "descriptor_step d st") (auto split: if_splits)
qed

end

text \<open>The tables of the primary and of the supplementary descriptors; the last one counts.\<close>

definition primaries :: "VolumeDescriptor option list \<Rightarrow> VolumeDescriptorTable list" where
  "primaries ds = List.map_filter (\<lambda>d. case d of Some (Primary t) \<Rightarrow> Some t | _ \<Rightarrow> None) ds"

definition supplementaries :: "VolumeDescriptor option list \<Rightarrow> VolumeDescriptorTable list" where
  "supplementaries ds = List.map_filter (\<lambda>d. case d of Some (Supplementary t) \<Rightarrow> Some t | _ \<Rightarrow> None) ds"

definition last_opt :: "'a list \<Rightarrow> 'a option" where
  "last_opt xs = (if xs = [] then None else Some (last xs))"

definition root_dir_of :: "VolumeDescriptorTable \<Rightarrow> ISODirectory" where
  "root_dir_of t =
    ISODirectory_new (root_directory_entry t) ExtraMeta_default (root_directory_entry_identifier t)"

lemma scan_descriptors_eq:
  assumes "Some VolumeDescriptorSetTerminator \<notin> set ds"
    and "\<forall>t \<in> set (primaries ds) \<union> set (supplementaries ds). unat (logical_block_size t) = BLOCK_SIZE"
  shows "scan_descriptors ds st = Ret
    \<lparr>ns_root = (if primaries ds = [] then ns_root st else Some (root_of_table (last (primaries ds)))),
     ns_primary = (if primaries ds = [] then ns_primary st else Some (Primary (last (primaries ds)))),
     ns_sup_root = (if supplementaries ds = [] then ns_sup_root st
       else Some (root_of_table (last (supplementaries ds))))\<rparr>"
  using assms
proof (induction ds arbitrary: st)
  case Nil
  then show ?case by (simp add: primaries_def supplementaries_def List.map_filter_simps)
next
  case (Cons d ds)
  have step: "primaries (d # ds) = (case d of Some (Primary t) \<Rightarrow> [t] | _ \<Rightarrow> []) @ primaries ds"
    "supplementaries (d # ds) = (case d of Some (Supplementary t) \<Rightarrow> [t] | _ \<Rightarrow> []) @ supplementaries ds"
    by (auto simp: primaries_def supplementaries_def List.map_filter_simps
        split: option.splits VolumeDescriptor.splits)
  show ?case
    using Cons.prems unfolding step
    by (cases d rule: option.exhaust; simp only: scan_descriptors.simps)
      (auto simp: descriptor_step_def Cons.IH split: VolumeDescriptor.splits)
qed

lemma scan_descriptors_block_size:
  assumes "Some VolumeDescriptorSetTerminator \<notin> set ds"
    and "\<exists>t \<in> set (primaries ds) \<union> set (supplementaries ds). unat (logical_block_size t) \<noteq> BLOCK_SIZE"
  shows "scan_descriptors ds st = Throw (InvalidFs ''Block size not 2048'')"
  using assms
proof (induction ds arbitrary: st)
  case Nil
  then show ?case by (simp add: primaries_def supplementaries_def List.map_filter_simps)
next
  case (Cons d ds)
  then show ?case
    by (cases d rule: option.exhaust; simp only: scan_descriptors.simps)
      (auto simp: descriptor_step_def primaries_def supplementaries_def List.map_filter_simps
        split: VolumeDescriptor.splits)
qed

context image_directory begin

lemma ISO9660_new_block_size:
  assumes "\<And>i. i < length ds \<Longrightarrow> descriptor_at B img (16 + i) = Ret (ds ! i)"
    and "descriptor_at B img (16 + length ds) = Ret (Some VolumeDescriptorSetTerminator)"
    and "inv r" and "16 + length ds < 2 ^ 53"
    and "Some VolumeDescriptorSetTerminator \<notin> set ds"
    and "\<exists>t \<in> set (primaries ds) \<union> set (supplementaries ds). unat (logical_block_size t) \<noteq> BLOCK_SIZE"
  shows "\<exists>r'. inv r' \<and> ISO9660_new B rd r = (Throw (InvalidFs ''Block size not 2048''), r')"
  using descriptor_loop_scan [OF assms(1-3) _ assms(4), of BlockBuffer_new new_state_init]
  by (auto simp: ISO9660_new_def BlockBuffer_new_def scan_descriptors_block_size [OF assms(5,6)])

lemma ISO9660_new_scan:
  assumes "\<And>i. i < length ds \<Longrightarrow> descriptor_at B img (16 + i) = Ret (ds ! i)"
    and "descriptor_at B img (16 + length ds) = Ret (Some VolumeDescriptorSetTerminator)"
    and "inv r" and "16 + length ds < 2 ^ 53"
    and "Some VolumeDescriptorSetTerminator \<notin> set ds"
    and "\<forall>t \<in> set (primaries ds) \<union> set (supplementaries ds). unat (logical_block_size t) = BLOCK_SIZE"
  shows "\<exists>r'. inv r' \<and> ISO9660_new B rd r =
    (case last_opt (primaries ds) of
       None \<Rightarrow> Throw (InvalidFs ''No primary volume descriptor'')
     | Some t \<Rightarrow> Ret \<lparr>iso_root = root_dir_of t,
         iso_sup_root = map_option root_dir_of (last_opt (supplementaries ds)),
         iso_primary = Primary t\<rparr>, r')"
proof -
  obtain r' where "inv r'" "descriptor_loop B rd 16 BlockBuffer_new new_state_init r =
      Some (scan_descriptors ds new_state_init, r')"
    using descriptor_loop_scan [OF assms(1-3) _ assms(4), of BlockBuffer_new] by (auto simp: BlockBuffer_new_def)
  then show ?thesis
    by (intro exI [of _ r'])
      (simp add: ISO9660_new_def scan_descriptors_eq [OF assms(5,6)] finish_new_def last_opt_def
        new_state_init_def root_dir_of_def root_of_table_def)
qed

lemma is_rr_image:
  assumes "inv r"
  shows "\<exists>r'. inv r' \<and> is_rr B rd isofs r =
    (case entry_at B img (iso_root isofs) 0 of
       Ret (Directory dirent, _) \<Rightarrow> Ret (is_rock_ridge dirent)
     | Panic \<Rightarrow> Panic
     | Hang \<Rightarrow> Hang
     | _ \<Rightarrow> Ret False, r')"
proof -
  let ?dir = "iso_root isofs"
  have ok: "iter_ok ?dir (contents ?dir)" "next_offset (contents ?dir) = Some 0"
    by (simp_all add: iter_ok_def contents_def)
  from iterator_next_image [OF assms ok] obtain it' r' where "inv r'"
    "iterator_next B rd (contents ?dir) r =
      (Some (and_then (entry_at B img ?dir 0) (\<lambda>(e, _). Ret e)), it', r')" by blast
  then show ?thesis
    by (intro exI [of _ r'], cases "entry_at B img ?dir 0")
      (auto simp: is_rr_def split: DirectoryEntry.splits prod.splits)
qed

text \<open>The root directory that is used, over the image.\<close>

lemma ISO9660_root_image:
  assumes "inv r"
  shows "\<exists>r'. inv r' \<and> ISO9660_root B rd isofs r =
    (case entry_at B img (iso_root isofs) 0 of
       Panic \<Rightarrow> Panic
     | Hang \<Rightarrow> Hang
     | first \<Rightarrow>
         Ret (if \<exists>dirent nxt. first = Ret (Directory dirent, nxt) \<and> is_rock_ridge dirent then iso_root isofs
              else unwrap_or (iso_sup_root isofs) (iso_root isofs)), r')"
proof -
  from is_rr_image [OF assms, of isofs] obtain r' where "inv r'" and rr: "is_rr B rd isofs r =
    (case entry_at B img (iso_root isofs) 0 of
       Ret (Directory dirent, _) \<Rightarrow> Ret (is_rock_ridge dirent)
     | Panic \<Rightarrow> Panic
     | Hang \<Rightarrow> Hang
     | _ \<Rightarrow> Ret False, r')" by blast
  then show ?thesis
    by (intro exI [of _ r'], cases "entry_at B img (iso_root isofs) 0")
      (auto simp: ISO9660_root_def unwrap_or_def split: DirectoryEntry.splits prod.splits option.splits)
qed

end

lemma path_segments_name: "name \<noteq> [] \<Longrightarrow> 47 \<notin> set name \<Longrightarrow> path_segments name = [name]"
  by (simp add: path_segments_def split_on_no_sep)

context image_directory begin

lemma new_recorded:
  assumes "inv r" and table: "primary_ok t x" "logical_block_size t = 2048"
    and desc: "img_at img (16 * BLOCK_SIZE) BLOCK_SIZE = enc_primary t x"
      "img_at img (17 * BLOCK_SIZE) BLOCK_SIZE = enc_terminator"
  shows "\<exists>r'. inv r' \<and> ISO9660_new B rd r =
    (Ret \<lparr>iso_root = root_dir_of (read_table t), iso_sup_root = None, iso_primary = Primary (read_table t)\<rparr>, r')"
proof -
  have "descriptor_at B img 16 = Ret (Some (Primary (read_table t)))"
    using desc(1) length_enc_primary [OF table(1)] enc_primary_parse [OF table(1)]
    by (simp add: descriptor_at_def)
  moreover have "descriptor_at B img 17 = Ret (Some VolumeDescriptorSetTerminator)"
    using desc(2) length_enc_terminator enc_terminator_parse by (simp add: descriptor_at_def)
  moreover have "primaries [Some (Primary (read_table t))] = [read_table t]"
    "supplementaries [Some (Primary (read_table t))] = []"
    by (simp_all add: primaries_def supplementaries_def List.map_filter_simps)
  moreover have "unat (logical_block_size (read_table t)) = BLOCK_SIZE" using table(2) by (simp add: read_table_def)
  ultimately show ?thesis
    using ISO9660_new_scan [of "[Some (Primary (read_table t))]" r] assms(1) by (auto simp: last_opt_def)
qed

lemma open_name:
  assumes "inv r" and sup: "iso_sup_root isofs = None"
    and walk: "dir_walk B img (iso_root isofs) (Some 0) es (Ret ())" and name: "name \<noteq> []" "47 \<notin> set name"
  shows "\<exists>r'. inv r' \<and> ISO9660_open B rd isofs name r = (Ret (List.find (named name) es), r')"
proof -
  have "\<exists>x. entry_at B img (iso_root isofs) 0 = Ret x"
    using walk by (rule walk_SomeE) (cases "entry_at B img (iso_root isofs) 0"; auto)+
  then obtain x where "entry_at B img (iso_root isofs) 0 = Ret x" by blast
  with ISO9660_root_image [OF assms(1), of isofs] sup obtain r1 where r1: "inv r1"
    "ISO9660_root B rd isofs r = (Ret (iso_root isofs), r1)" by (auto split: if_splits)
  obtain r2 where "inv r2" "find_entry B rd (iso_root isofs) name r1 = (find_result name es (Ret ()), r2)"
    using find_entry_walk [OF walk r1(1)] by blast
  then show ?thesis using r1(2)
    by (auto simp: ISO9660_open_def find_recursive_def path_segments_name [OF name] find_result_def
        split: option.splits)
qed

end

section \<open>An example image\<close>

lemma img_at_concat:
  assumes "\<forall>b \<in> set bs. length b = BLOCK_SIZE" and "k < length bs"
  shows "img_at (concat bs) (k * BLOCK_SIZE) BLOCK_SIZE = bs ! k"
  using assms
proof (induction bs arbitrary: k)
  case (Cons b bs)
  then show ?case by (cases k) (auto simp: img_at_def)
qed simp

definition demo_pvd :: VolumeDescriptorTable where
  "demo_pvd =
    \<lparr>system_identifier = [], volume_identifier = lit ''CDROM'', vd_character_encoding = Iso9660,
     volume_space_size = 20, volume_set_size = 1, volume_sequence_number = 1,
     logical_block_size = 2048, path_table_size = 10, path_table_loc = 21, optional_path_table_loc = 0,
     root_directory_entry = demo_header 34 18 2, root_directory_entry_identifier = [0],
     volume_set_identifier = [], publisher_identifier = [], data_preparer_identifier = [],
     application_identifier = [], copyright_file_identifier = lit ''COPY'',
     abstract_file_identifier = lit ''ABSTRACT'', bibliographic_file_identifier = [],
     vd_creation_time = demo_time, vd_modification_time = demo_time, vd_expiration_time = unset_date,
     vd_effective_time = unset_date, file_structure_version = 1\<rparr>"

definition demo_rest :: primary_rest where
  "demo_rest =
    \<lparr>type_m_path_table_loc = 22, optional_type_m_path_table_loc = 0, application_use = replicate 512 32\<rparr>"

definition demo_table :: VolumeDescriptorTable where
  "demo_table = read_table demo_pvd"

lemma demo_table_fields:
  "logical_block_size demo_table = 2048" "root_directory_entry demo_table = demo_header 34 18 2"
  "root_directory_entry_identifier demo_table = [0]"
  by (simp_all add: demo_table_def demo_pvd_def read_table_def demo_header_read)

definition demo_blocks :: "u8 list list" where
  "demo_blocks =
    replicate 16 (replicate 2048 0)
    @ [enc_primary demo_pvd demo_rest, enc_terminator, demo_dir_img, replicate 2048 65]"

definition demo_iso :: "u8 list" where
  "demo_iso = concat demo_blocks"

definition demo_isofs :: ISO9660 where
  "demo_isofs = \<lparr>iso_root = root_dir_of demo_table, iso_sup_root = None, iso_primary = Primary demo_table\<rparr>"

abbreviation (input) demo_iso_cursor :: cursor where
  "demo_iso_cursor \<equiv> \<lparr>cur_data = demo_iso, cur_pos = 0\<rparr>"

lemmas demo_iso_image = cursor.image_reader_axioms [where B = demo_B and img = demo_iso]

lemma demo_primary_ok: "primary_ok demo_pvd demo_rest"
proof -
  have "header_ok (demo_header 34 18 2) [0] []"
    by (simp add: header_ok_def demo_header_def date_ok_def demo_time_def days_in_month_def FileFlags_all_def)
  moreover have "long_date_ok demo_time" "long_date_ok unset_date"
    by (simp_all add: long_date_ok_def demo_time_def days_in_month_def)
  ultimately show ?thesis
    by (simp add: primary_ok_def demo_rest_def table_ok_def demo_pvd_def str_ok_def lit_def as_bytes_def
        utf8_encode_def is_scalar_def is_whitespace_def) (simp add: demo_header_def)
qed

lemma demo_blocks_length: "\<forall>b \<in> set demo_blocks. length b = BLOCK_SIZE"
  using demo_primary_ok demo_length
  by (auto simp: demo_blocks_def length_enc_primary length_enc_terminator demo_dir_img_def)

lemma demo_iso_block: "k < 20 \<Longrightarrow> img_at demo_iso (k * BLOCK_SIZE) BLOCK_SIZE = demo_blocks ! k"
  unfolding demo_iso_def by (rule img_at_concat [OF demo_blocks_length]) (simp add: demo_blocks_def)

lemma demo_iso_length: "length demo_iso = 40960"
proof -
  have "length (concat bs) = length bs * BLOCK_SIZE" if "\<forall>b \<in> set bs. length b = BLOCK_SIZE" for bs :: "u8 list list"
    using that by (induction bs) auto
  from this [OF demo_blocks_length] show ?thesis by (simp add: demo_iso_def demo_blocks_def)
qed

lemma demo_descriptors:
  "descriptor_at demo_B demo_iso 16 = Ret (Some (Primary demo_table))"
  "descriptor_at demo_B demo_iso 17 = Ret (Some VolumeDescriptorSetTerminator)"
  using demo_iso_block [of 16] demo_iso_block [of 17] demo_primary_ok
  by (simp_all add: descriptor_at_def demo_blocks_def nth_append length_enc_primary length_enc_terminator
      demo_table_def std_susp.enc_primary_parse std_susp.enc_terminator_parse)

lemma demo_root_dir: "dir_header (root_dir_of demo_table) = demo_header 34 18 2"
  by (simp add: root_dir_of_def ISODirectory_new_def demo_table_fields Let_def)

lemma demo_root_recorded: "dir_recorded demo_iso (root_dir_of demo_table) [demo_recs]"
proof -
  have "dir_block_at demo_iso (root_dir_of demo_table) 0 = demo_dir_img"
    using demo_iso_block [of 18]
    by (simp add: dir_block_at_def demo_root_dir demo_blocks_def nth_append) (simp add: demo_header_def)
  moreover have "unat (extent_length (dir_header (root_dir_of demo_table))) = 2048"
    by (simp add: demo_root_dir demo_header_def)
  ultimately show ?thesis using demo_length
    unfolding dir_recorded_def by (auto simp: demo_dir_img_def)
qed

lemma demo_root_walk:
  "dir_walk demo_B demo_iso (root_dir_of demo_table) (Some 0) [Directory demo_dir, demo_file] (Ret ())"
proof -
  have "de_character_encoding (dir_header (root_dir_of demo_table)) = Iso9660"
    by (simp add: demo_root_dir demo_header_def)
  then show ?thesis
    using std_susp.dir_walk_recorded [OF demo_root_recorded, of 0] demo_recorded by simp
qed

section \<open>Properties\<close>

text \<open>C21: an instance that \<open>ISO9660::new\<close> returns, through any reader and from any bytes, shows a
  primary volume descriptor with blocks of 2048 bytes, its root directory is the one of that
  descriptor, and none of the accessors of \<open>primary_prop_str\<close> reaches its \<open>unreachable!\<close>.\<close>

theorem ISO9660_new_primary:
  assumes "ISO9660_new B rd r = (Ret isofs, r')"
  shows "\<exists>t. iso_primary isofs = Primary t \<and> unat (logical_block_size t) = BLOCK_SIZE
    \<and> iso_root isofs = ISODirectory_new (root_directory_entry t) ExtraMeta_default
        (root_directory_entry_identifier t)
    \<and> (\<forall>name. primary_prop_str name isofs = Ret (name t))"
  using ISO9660_new_ok [OF assms]
  by (auto simp: iso_ok_def primary_prop_str_def split: VolumeDescriptor.splits)

lemma demo_new:
  "\<exists>r'. cur_data r' = demo_iso \<and> ISO9660_new demo_B (blanket_read_at demo_B cursor_io) demo_iso_cursor =
    (Ret demo_isofs, r')"
proof -
  have i: "image_directory demo_B (blanket_read_at demo_B cursor_io) (\<lambda>c. cur_data c = demo_iso) demo_iso"
    by (rule cursor_image.image_directory_axioms)
  have tables: "primaries [Some (Primary demo_table)] = [demo_table]"
    "supplementaries [Some (Primary demo_table)] = []"
    by (simp_all add: primaries_def supplementaries_def List.map_filter_simps)
  have "unat (logical_block_size demo_table) = BLOCK_SIZE" by (simp add: demo_table_fields)
  with image_directory.ISO9660_new_scan [OF i, of "[Some (Primary demo_table)]" demo_iso_cursor]
  show ?thesis by (auto simp: demo_descriptors tables last_opt_def demo_isofs_def)
qed

theorem ISO9660_new_primary_witness:
  "\<exists>isofs r' t. ISO9660_new demo_B (blanket_read_at demo_B cursor_io) demo_iso_cursor = (Ret isofs, r')
    \<and> iso_primary isofs = Primary t \<and> primary_prop_str volume_set_identifier isofs = Ret (volume_set_identifier t)"
proof -
  obtain r' where "ISO9660_new demo_B (blanket_read_at demo_B cursor_io) demo_iso_cursor = (Ret demo_isofs, r')"
    using demo_new by blast
  with ISO9660_new_primary [OF this] show ?thesis by blast
qed

text \<open>C20: opening an image ends: over any reader of an image, however its blocks are filled, the loop
  over the volume descriptors leaves at a terminator, at an error or where the image ends.\<close>

theorem ISO9660_new_ends:
  assumes "linked_susp B" and "image_reader rd ok img" and "ok r" and "length img < 2 ^ 63"
  shows "\<exists>res r'. ok r' \<and> ISO9660_new B rd r = (res, r') \<and> res \<noteq> Hang"
proof -
  have i: "image_directory B rd ok img" using assms(1,2) by (simp add: image_directory_def)
  have "finish_new st \<noteq> Hang" for st by (simp add: finish_new_def split: option.splits)
  with image_directory.descriptor_loop_total [OF i assms(4,3), of BlockBuffer_new 16 new_state_init]
  show ?thesis by (auto simp: ISO9660_new_def and_then_eq_Hang BlockBuffer_new_def)
qed

theorem ISO9660_new_ends_witness:
  "\<exists>res r'. ISO9660_new demo_B (blanket_read_at demo_B cursor_io) demo_iso_cursor = (res, r') \<and> res \<noteq> Hang"
  using ISO9660_new_ends [OF demo_linked demo_iso_image, of demo_iso_cursor] by (auto simp: demo_iso_length)

text \<open>C9: what \<open>ISO9660::new\<close> makes of a set of volume descriptors: with the descriptors \<open>ds\<close> recorded
  from block 16 on, followed by the terminator, the image is refused if the block size of a primary
  or a supplementary descriptor is not 2048; otherwise the last primary descriptor gives the root and
  the properties, the last supplementary descriptor, if any, the alternative root, boot records and
  unknown descriptors are skipped, and without a primary descriptor the image is refused.\<close>

theorem ISO9660_new_descriptors:
  assumes "linked_susp B" and "image_reader rd ok img" and "ok r"
    and "\<And>i. i < length ds \<Longrightarrow> descriptor_at B img (16 + i) = Ret (ds ! i)"
    and "descriptor_at B img (16 + length ds) = Ret (Some VolumeDescriptorSetTerminator)"
    and "16 + length ds < 2 ^ 53" and "Some VolumeDescriptorSetTerminator \<notin> set ds"
  shows "\<exists>r'. ok r' \<and> ISO9660_new B rd r =
    (if \<exists>t \<in> set (primaries ds) \<union> set (supplementaries ds). unat (logical_block_size t) \<noteq> 2048
     then Throw (InvalidFs ''Block size not 2048'')
     else (case last_opt (primaries ds) of
       None \<Rightarrow> Throw (InvalidFs ''No primary volume descriptor'')
     | Some t \<Rightarrow> Ret \<lparr>iso_root = root_dir_of t,
         iso_sup_root = map_option root_dir_of (last_opt (supplementaries ds)),
         iso_primary = Primary t\<rparr>), r')"
proof -
  have i: "image_directory B rd ok img" using assms(1,2) by (simp add: image_directory_def)
  show ?thesis
  proof (cases "\<exists>t \<in> set (primaries ds) \<union> set (supplementaries ds). unat (logical_block_size t) \<noteq> BLOCK_SIZE")
    case True
    from image_directory.ISO9660_new_block_size [OF i assms(4,5,3,6,7) this] True show ?thesis by simp
  next
    case False
    with image_directory.ISO9660_new_scan [OF i assms(4,5,3,6,7)] show ?thesis by simp
  qed
qed

theorem ISO9660_new_descriptors_witness:
  "\<exists>r'. ISO9660_new demo_B (blanket_read_at demo_B cursor_io) demo_iso_cursor = (Ret demo_isofs, r')"
proof -
  have tables: "primaries [Some (Primary demo_table)] = [demo_table]"
    "supplementaries [Some (Primary demo_table)] = []"
    by (simp_all add: primaries_def supplementaries_def List.map_filter_simps)
  have "unat (logical_block_size demo_table) = 2048" by (simp add: demo_table_fields)
  with ISO9660_new_descriptors [OF demo_linked demo_iso_image, of demo_iso_cursor "[Some (Primary demo_table)]"]
  show ?thesis by (auto simp: demo_descriptors tables last_opt_def demo_isofs_def)
qed

text \<open>C10: the choice of the root directory: the primary root if its first entry shows Rock Ridge
  extensions, else the supplementary root if there is one, else the primary root. A first entry that
  cannot be read counts as one without extensions; only its unwinding or hanging shows.\<close>

theorem ISO9660_root_choice:
  assumes "linked_susp B" and "image_reader rd ok img" and "ok r"
  shows "\<exists>r'. ok r' \<and> ISO9660_root B rd isofs r =
    (case entry_at B img (iso_root isofs) 0 of
       Panic \<Rightarrow> Panic
     | Hang \<Rightarrow> Hang
     | first \<Rightarrow>
         Ret (if \<exists>dirent nxt. first = Ret (Directory dirent, nxt) \<and> is_rock_ridge dirent then iso_root isofs
              else unwrap_or (iso_sup_root isofs) (iso_root isofs)), r')"
proof -
  have i: "image_directory B rd ok img" using assms(1,2) by (simp add: image_directory_def)
  show ?thesis by (rule image_directory.ISO9660_root_image [OF i assms(3)])
qed

theorem ISO9660_root_choice_witness:
  "\<exists>r'. ISO9660_root demo_B (blanket_read_at demo_B cursor_io) demo_isofs demo_iso_cursor =
    (Ret (root_dir_of demo_table), r')"
proof -
  have "iso_root demo_isofs = root_dir_of demo_table" "iso_sup_root demo_isofs = None"
    by (simp_all add: demo_isofs_def)
  moreover obtain nxt where "entry_at demo_B demo_iso (root_dir_of demo_table) 0 = Ret (Directory demo_dir, nxt)"
    using demo_root_walk by (rule walk_SomeE) auto
  ultimately show ?thesis
    using ISO9660_root_choice [OF demo_linked demo_iso_image, of demo_iso_cursor demo_isofs]
    by (auto split: if_splits)
qed

text \<open>C1: a file that is recorded is opened and read: in an image with a primary volume descriptor, laid out as
  in ECMA-119 8.4 with any identifiers, dates, path table locations and application data (\<open>enc_primary\<close>),
  in block 16, the terminator in block 17, so that there is no supplementary descriptor, and a root
  directory whose records, with their system use entries and continuation areas, meet the
  conditions of the lookup property (\<open>recorded\<close>), opening the name of a file of the root directory gives the
  first entry of that name, and reading from the start of that file fills the buffer with the bytes of its
  extent, as many as there are; through any reader of the image, from the opening of the image to the
  read. The extent lies within the image.\<close>

theorem recorded_file_read:
  assumes "linked_susp B" and "image_reader rd ok img" and "ok r"
    and table: "primary_ok t x" "logical_block_size t = 2048"
    and desc: "img_at img (16 * BLOCK_SIZE) BLOCK_SIZE = enc_primary t x"
      "img_at img (17 * BLOCK_SIZE) BLOCK_SIZE = enc_terminator"
    and dir: "dir_recorded img (root_dir_of (read_table t)) gs" "gs \<noteq> []"
      "list_all2 (recorded img Iso9660) (concat gs) es"
    and name: "name \<noteq> []" "47 \<notin> set name"
      "List.find (named name) es = Some (File f)"
    and extent: "unat (extent_loc (file_header f)) * BLOCK_SIZE + unat (ISOFile_size f) \<le> length img"
  shows "\<exists>isofs r1 r2 self' r3. ISO9660_new B rd r = (Ret isofs, r1)
    \<and> ISO9660_open B rd isofs name r1 = (Ret (Some (File f)), r2)
    \<and> ISOFileReader_read rd (ISOFile_read f) buf r2 =
        (let got = take (length buf) (img_at img (unat (extent_loc (file_header f)) * BLOCK_SIZE)
                     (unat (ISOFile_size f)))
         in (Ret (length got), self', got @ drop (length got) buf, r3))"
proof -
  have i: "image_directory B rd ok img" using assms(1,2) by (simp add: image_directory_def)
  let ?isofs = "\<lparr>iso_root = root_dir_of (read_table t), iso_sup_root = None,
    iso_primary = Primary (read_table t)\<rparr>"
  obtain r1 where r1: "ok r1" "ISO9660_new B rd r = (Ret ?isofs, r1)"
    using image_directory.new_recorded [OF i assms(3) table desc] by blast
  have "de_character_encoding (dir_header (root_dir_of (read_table t))) = Iso9660"
    using table(1)
    by (simp add: root_dir_of_def ISODirectory_new_def primary_ok_def table_ok_def read_table_def Let_def)
  then have "dir_walk B img (iso_root ?isofs) (Some 0) es (Ret ())"
    using linked_susp.dir_walk_recorded [OF assms(1) dir(1), of 0 es] dir(2,3) by simp
  from image_directory.open_name [OF i r1(1) _ this name(1,2)] name(3)
  obtain r2 where r2: "ok r2" "ISO9660_open B rd ?isofs name r1 = (Ret (Some (File f)), r2)" by auto
  have "file_bytes img (ISOFile_read f) =
      img_at img (unat (extent_loc (file_header f)) * BLOCK_SIZE) (unat (ISOFile_size f))"
    and "fr_seek (ISOFile_read f) = 0"
    by (simp_all add: file_bytes_def ISOFile_read_def)
  with image_reader.read_refines [OF assms(2) r2(1) ISOFile_read_ok [OF extent], of buf] r1(2) r2(2)
  show ?thesis by (auto simp: Let_def)
qed

theorem recorded_file_read_witness:
  "\<exists>isofs r1 r2 self' r3 f. ISO9660_new demo_B (blanket_read_at demo_B cursor_io) demo_iso_cursor = (Ret isofs, r1)
    \<and> ISO9660_open demo_B (blanket_read_at demo_B cursor_io) isofs (lit ''a'') r1 = (Ret (Some (File f)), r2)
    \<and> ISOFileReader_read (blanket_read_at demo_B cursor_io) (ISOFile_read f) [0, 0, 0] r2 =
        (Ret 3, self', [65, 65, 65], r3)"
proof -
  define f where "f = (case demo_file of File f \<Rightarrow> f)"
  have f: "demo_file = File f" "unat (extent_loc (file_header f)) = 19" "unat (ISOFile_size f) = 2048"
    by (simp_all add: f_def demo_file_def demo_header_def ISOFile_size_def)
  have find: "List.find (named (lit ''a'')) [Directory demo_dir, demo_file] = Some (File f)"
    using demo_named unfolding f(1) .
  have bytes: "img_at demo_iso (19 * BLOCK_SIZE) BLOCK_SIZE = replicate 2048 65"
    using demo_iso_block [of 19] by (simp add: demo_blocks_def nth_append)
  have desc: "img_at demo_iso (16 * BLOCK_SIZE) BLOCK_SIZE = enc_primary demo_pvd demo_rest"
    "img_at demo_iso (17 * BLOCK_SIZE) BLOCK_SIZE = enc_terminator"
    using demo_iso_block [of 16] demo_iso_block [of 17] by (simp_all add: demo_blocks_def nth_append)
  have size: "logical_block_size demo_pvd = 2048" by (simp add: demo_pvd_def)
  have recs: "list_all2 (recorded demo_iso Iso9660) (concat [demo_recs]) [Directory demo_dir, demo_file]"
    using demo_recorded by simp
  have name: "lit ''a'' \<noteq> []" "47 \<notin> set (lit ''a'')" by (simp_all add: lit_def)
  have extent: "unat (extent_loc (file_header f)) * BLOCK_SIZE + unat (ISOFile_size f) \<le> length demo_iso"
    by (simp add: f demo_iso_length)
  have got: "take (length [0, 0, 0 :: u8]) (img_at demo_iso (unat (extent_loc (file_header f)) * BLOCK_SIZE)
      (unat (ISOFile_size f))) = [65, 65, 65]"
    unfolding f(2,3) bytes by (simp add: numeral_eq_Suc)
  show ?thesis
    using recorded_file_read [OF demo_linked demo_iso_image _ demo_primary_ok size desc demo_root_recorded [unfolded demo_table_def] _ recs
        name find extent, of demo_iso_cursor "[0, 0, 0]"]
    unfolding got by (auto simp: Let_def)
qed

end
