(* ===== verification/Example_Programs.thy ===== *)
theory Example_Programs
  imports Iso9660
begin

text \<open>
  The two programs of \<open>cdfs/examples\<close>: \<open>print_file\<close> writes a file of the image to the standard output,
  \<open>print_tree\<close> prints the names below a directory. They are modelled from the opened image file on,
  with the output as a value; the command line and the logger are left out, and so are errors of the
  standard output. What they use of \<open>std\<close> and of the \<open>time\<close> crate beyond the library is in \<open>example_env\<close>:
  how much \<open>Read::read_to_end\<close> asks for, given what it has (at least one byte), which errors it takes
  for an interrupted call that is repeated, and the text of a date in the format of \<open>print_tree\<close>.
\<close>

record example_env =
  chunk :: "u8 list \<Rightarrow> nat"
  interrupted :: "io_error \<Rightarrow> bool"
  format_time :: "OffsetDateTime \<Rightarrow> ustr option"

datatype example_error =
    FromISO ISOError
  | FromIo io_error
  | PathNotUtf8
  | NotAFile ustr
  | NotADirectory ustr
  | DoesNotExist ustr

section \<open>print_file\<close>

text \<open>\<open>std::io::Read::read_to_end\<close> on a file reader.\<close>

partial_function (option) read_to_end ::
    "example_env \<Rightarrow> 'r reader \<Rightarrow> ISOFileReader \<Rightarrow> u8 list \<Rightarrow> 'r \<Rightarrow>
     ((io_error, u8 list) exec \<times> 'r) option" where
  "read_to_end env rd self text r =
    (case ISOFileReader_read rd self (replicate (chunk env text) 0) r of
       (Ret n, self, buf, r) \<Rightarrow>
         if n = 0 then Some (Ret text, r) else read_to_end env rd self (text @ take n buf) r
     | (Throw e, self, buf, r) \<Rightarrow>
         if interrupted env e then read_to_end env rd self text r else Some (Throw e, r)
     | (Panic, self, buf, r) \<Rightarrow> Some (Panic, r)
     | (Hang, self, buf, r) \<Rightarrow> Some (Hang, r))"

text \<open>The result is what is written.\<close>

definition print_file ::
    "'z susp_build_scheme \<Rightarrow> example_env \<Rightarrow> 'r reader \<Rightarrow> u8 list \<Rightarrow> 'r \<Rightarrow> (example_error, u8 list) exec \<times> 'r" where
  "print_file B env rd file_path r =
    (case ISO9660_new B rd r of
       (Ret fs, r) \<Rightarrow>
         (case from_utf8 file_path of
            None \<Rightarrow> (Throw PathNotUtf8, r)
          | Some file_path \<Rightarrow>
              (case ISO9660_open B rd fs file_path r of
                 (Ret (Some (File file)), r) \<Rightarrow>
                   (case read_to_end env rd (ISOFile_read file) [] r of
                      Some (Ret text, r) \<Rightarrow> (Ret text, r)
                    | Some (Throw e, r) \<Rightarrow> (Throw (FromIo e), r)
                    | Some (Panic, r) \<Rightarrow> (Panic, r)
                    | Some (Hang, r) \<Rightarrow> (Hang, r)
                    | None \<Rightarrow> (Hang, r))
               | (Ret (Some _), r) \<Rightarrow> (Throw (NotAFile file_path), r)
               | (Ret None, r) \<Rightarrow> (Throw (DoesNotExist file_path), r)
               | (Throw e, r) \<Rightarrow> (Panic, r)
               | (Panic, r) \<Rightarrow> (Panic, r)
               | (Hang, r) \<Rightarrow> (Hang, r)))
     | (Throw e, r) \<Rightarrow> (Throw (FromISO e), r)
     | (Panic, r) \<Rightarrow> (Panic, r)
     | (Hang, r) \<Rightarrow> (Hang, r))"

section \<open>print_tree\<close>

text \<open>\<open>INDENT.repeat(level)\<close>.\<close>

definition indent :: "nat \<Rightarrow> ustr" where
  "indent level = concat (replicate level (lit ''  ''))"

text \<open>The line of an entry: the mode if there is one, the date, and the rest. What was printed before a
  step unwinds stays printed.\<close>

definition print_line ::
    "'z build_scheme \<Rightarrow> example_env \<Rightarrow> ExtraMeta \<Rightarrow> OffsetDateTime \<Rightarrow> ustr \<Rightarrow> ustr \<Rightarrow>
     (example_error, unit) exec \<times> ustr" where
  "print_line B env ext time name out =
    (case (case mode ext of
             None \<Rightarrow> (Ret (), out)
           | Some m \<Rightarrow>
               (case PosixFileMode_fmt B m of
                  Ret s \<Rightarrow> (Ret (), out @ lit s @ lit '' '')
                | Throw e \<Rightarrow> (Throw e, out)
                | Panic \<Rightarrow> (Panic, out)
                | Hang \<Rightarrow> (Hang, out))) of
       (Ret _, out) \<Rightarrow>
         (case format_time env time of
            None \<Rightarrow> (Panic, out)
          | Some s \<Rightarrow> (Ret (), out @ lit '' '' @ s @ lit '' '' @ name @ [10]))
     | (res, out) \<Rightarrow> (res, out))"

text \<open>The target of a link as it is shown; the characters are an interrobang (thrice) and an arrow.\<close>

definition shown_target :: "ustr option \<Rightarrow> ustr" where
  "shown_target target =
    (case target of
       Some target \<Rightarrow>
         if target = [0] then lit ''..'' else if target = [1] then lit ''.''
         else if target = [] then [8253, 8253, 8253] else target
     | None \<Rightarrow> [8253, 8253, 8253])"

text \<open>One entry of \<open>dir\<close>; the line of a link shows the modification time of \<open>dir\<close>.\<close>

definition print_entry ::
    "'z build_scheme \<Rightarrow> example_env \<Rightarrow> ISODirectory \<Rightarrow> nat \<Rightarrow> DirectoryEntry \<Rightarrow> ustr \<Rightarrow>
     (example_error, unit) exec \<times> ustr" where
  "print_entry B env dir level entry out =
    (case entry of
       Directory sub \<Rightarrow>
         print_line B env (dir_ext sub) (modify_time (dir_ext sub) (dir_header sub))
           (indent level @ dir_identifier sub @ lit ''/'') out
     | File file \<Rightarrow>
         print_line B env (file_ext file) (modify_time (file_ext file) (file_header file))
           (indent level @ file_identifier file) out
     | Symlink link \<Rightarrow>
         print_line B env (sym_ext link) (modify_time (dir_ext dir) (dir_header dir))
           (indent level @ sym_identifier link @ [32, 8594, 32] @ shown_target (Symlink_target link)) out)"

definition is_dots :: "DirectoryEntry \<Rightarrow> bool" where
  "is_dots entry = (case entry of Directory d \<Rightarrow> dir_identifier d = lit ''.'' \<or> dir_identifier d = lit ''..'' | _ \<Rightarrow> False)"

partial_function (option) print_tree_loop ::
    "'z susp_build_scheme \<Rightarrow> example_env \<Rightarrow> 'r reader \<Rightarrow> ISODirectory \<Rightarrow> nat \<Rightarrow> ISODirectoryIterator \<Rightarrow>
     ustr \<Rightarrow> 'r \<Rightarrow> ((example_error, unit) exec \<times> ustr \<times> 'r) option" where
  "print_tree_loop B env rd dir level it out r =
    (case iterator_next B rd it r of
       (None, it, r) \<Rightarrow> Some (Ret (), out, r)
     | (Some (Ret entry), it, r) \<Rightarrow>
         if is_dots entry then print_tree_loop B env rd dir level it out r
         else
           (case print_entry B env dir level entry out of
              (Ret _, out) \<Rightarrow>
                (case entry of
                   Directory sub \<Rightarrow>
                     Option.bind (print_tree_loop B env rd sub (level + 1) (contents sub) out r) (\<lambda>(res, out, r).
                     case res of
                       Ret _ \<Rightarrow> print_tree_loop B env rd dir level it out r
                     | _ \<Rightarrow> Some (res, out, r))
                 | _ \<Rightarrow> print_tree_loop B env rd dir level it out r)
            | (res, out) \<Rightarrow> Some (res, out, r))
     | (Some Hang, it, r) \<Rightarrow> Some (Hang, out, r)
     | (Some _, it, r) \<Rightarrow> Some (Panic, out, r))"

definition print_tree ::
    "'z susp_build_scheme \<Rightarrow> example_env \<Rightarrow> 'r reader \<Rightarrow> ISODirectory \<Rightarrow> nat \<Rightarrow> ustr \<Rightarrow> 'r \<Rightarrow>
     (example_error, unit) exec \<times> ustr \<times> 'r" where
  "print_tree B env rd dir level out r =
    (case print_tree_loop B env rd dir level (contents dir) out r of
       Some x \<Rightarrow> x
     | None \<Rightarrow> (Hang, out, r))"

definition print_tree_main ::
    "'z susp_build_scheme \<Rightarrow> example_env \<Rightarrow> 'r reader \<Rightarrow> u8 list option \<Rightarrow> 'r \<Rightarrow>
     (example_error, unit) exec \<times> ustr \<times> 'r" where
  "print_tree_main B env rd dir_path r =
    (case ISO9660_new B rd r of
       (Ret fs, r) \<Rightarrow>
         (case dir_path of
            Some dir_path \<Rightarrow>
              (case from_utf8 dir_path of
                 None \<Rightarrow> (Throw PathNotUtf8, [], r)
               | Some dir_path \<Rightarrow>
                   (case ISO9660_open B rd fs dir_path r of
                      (Ret (Some (Directory dir)), r) \<Rightarrow> print_tree B env rd dir 0 [] r
                    | (Ret (Some _), r) \<Rightarrow> (Throw (NotADirectory dir_path), [], r)
                    | (Ret None, r) \<Rightarrow> (Throw (DoesNotExist dir_path), [], r)
                    | (Throw e, r) \<Rightarrow> (Throw (FromISO e), [], r)
                    | (Panic, r) \<Rightarrow> (Panic, [], r)
                    | (Hang, r) \<Rightarrow> (Hang, [], r)))
          | None \<Rightarrow>
              (case ISO9660_root B rd fs r of
                 (Ret root, r) \<Rightarrow> print_tree B env rd root 0 [] r
               | (Throw e, r) \<Rightarrow> (Throw (FromISO e), [], r)
               | (Panic, r) \<Rightarrow> (Panic, [], r)
               | (Hang, r) \<Rightarrow> (Hang, [], r)))
     | (Throw e, r) \<Rightarrow> (Throw (FromISO e), [], r)
     | (Panic, r) \<Rightarrow> (Panic, [], r)
     | (Hang, r) \<Rightarrow> (Hang, [], r))"

end
