(* ===== verification/Fuse.thy ===== *)
theory Fuse
  imports Iso9660
begin

text \<open>
  \<open>cdfs-fuse/src/bin/cdfs_fuse.rs\<close>: the FUSE server over the library. A handler is a function of the
  server's state, the arguments it uses and the reader, to the reply it sends, the state and the
  reader; it can unwind (\<open>Panic\<close>) or hang with the library. What comes from other code is in the
  record \<open>fuse_env\<close>: the effective user and group of the process (\<open>libc\<close>), and whether the directory
  buffer of the request is full (\<open>ReplyDirectory::add\<close> of \<open>fuser\<close>).
\<close>

datatype errno = EINVAL | EIO | EISDIR | ENFILE | ENOENT | ENOTDIR | ENOTSUP

datatype FileType = FileType_Directory | FileType_RegularFile | FileType_Symlink

record FileAttr =
  fa_ino :: u64
  fa_size :: u64
  fa_blocks :: u64
  fa_atime :: OffsetDateTime
  fa_mtime :: OffsetDateTime
  fa_ctime :: OffsetDateTime
  fa_crtime :: OffsetDateTime
  fa_kind :: FileType
  fa_perm :: u16
  fa_nlink :: u32
  fa_uid :: u32
  fa_gid :: u32
  fa_rdev :: u32
  fa_blksize :: u32
  fa_flags :: u32

text \<open>An entry of a directory reply: inode, offset of the next one, type and name.\<close>

type_synonym dir_reply = "u64 \<times> int \<times> FileType \<times> ustr"

datatype reply =
    ReplyError errno
  | ReplyEntry FileAttr
  | ReplyAttr FileAttr
  | ReplyData "u8 list"
  | ReplyOpened u64
  | ReplyOk
  | ReplyDirectory "dir_reply list"

record fuse_env =
  geteuid :: u32
  getegid :: u32
  reply_add_full :: "dir_reply list \<Rightarrow> dir_reply \<Rightarrow> bool"

abbreviation (input) u64_MAX :: u64 where "u64_MAX \<equiv> 18446744073709551615"
abbreviation (input) FUSE_ROOT_ID :: u64 where "FUSE_ROOT_ID \<equiv> 1"

section \<open>Attributes\<close>

primrec entry_to_filetype :: "DirectoryEntry \<Rightarrow> FileType" where
  "entry_to_filetype (Directory _) = FileType_Directory"
| "entry_to_filetype (File _) = FileType_RegularFile"
| "entry_to_filetype (Symlink _) = FileType_Symlink"

definition default_perm :: "DirectoryEntry \<Rightarrow> u16" where
  "default_perm entry = (case entry of Directory _ \<Rightarrow> 0x16D | File _ \<Rightarrow> 0x124 | Symlink _ \<Rightarrow> 0x124)"

definition get_fileattr ::
    "'z build_scheme \<Rightarrow> fuse_env \<Rightarrow> u64 \<Rightarrow> DirectoryEntry \<Rightarrow> ('e, FileAttr) exec" where
  "get_fileattr B env ino entry =
    (let header = entry_header entry; ext = entry_ext entry; blksize = (2048 :: u32) in
    and_then (word_add B (extent_length header) blksize) (\<lambda>n.
    and_then (word_sub B n 1) (\<lambda>n.
    let blocks = unat (n div blksize); size' = unat (extent_length header) in
    and_then (case mode ext of
                Some m \<Rightarrow> u16_from_PosixFileMode B m
              | None \<Rightarrow> Ret (default_perm entry)) (\<lambda>perm.
    Ret \<lparr>fa_ino = ino, fa_size = size', fa_blocks = blocks,
         fa_atime = access_time ext header, fa_mtime = modify_time ext header,
         fa_ctime = attribute_change_time ext header, fa_crtime = create_time ext header,
         fa_kind = entry_to_filetype entry, fa_perm = perm, fa_nlink = 1,
         fa_uid = unwrap_or (owner ext) (geteuid env), fa_gid = unwrap_or (group ext) (getegid env),
         fa_rdev = 0, fa_blksize = blksize, fa_flags = 0\<rparr>))))"

section \<open>The server\<close>

record ISOFuse =
  fuse_iso :: ISO9660
  inodes :: "u64 \<rightharpoonup> DirectoryEntry"
  inode_number :: u64
  inode_autogenerated :: bool
  directory_number :: u64
  file_number :: u64
  open_directories :: "u64 \<rightharpoonup> ISODirectory"
  open_files :: "u64 \<rightharpoonup> ISOFileReader"

text \<open>\<open>ISOFuse::new\<close>, from the opened image file on: the two \<open>unwrap\<close>s on the first entry of the root
  directory unwind when it cannot be read.\<close>

definition ISOFuse_new ::
    "'z susp_build_scheme \<Rightarrow> 'r reader \<Rightarrow> 'r \<Rightarrow> (ISOError, ISOFuse) exec \<times> 'r" where
  "ISOFuse_new B rd r =
    (case ISO9660_new B rd r of
       (Ret iso9660, r) \<Rightarrow>
         (case ISO9660_root B rd iso9660 r of
            (Ret root, r) \<Rightarrow>
              (case iterator_next B rd (contents root) r of
                 (Some (Ret slashdot), _, r) \<Rightarrow>
                   (case is_rr B rd iso9660 r of
                      (res, r) \<Rightarrow>
                        (and_then res (\<lambda>rr.
                           Ret \<lparr>fuse_iso = iso9660, inodes = [FUSE_ROOT_ID \<mapsto> Directory root],
                                inode_number = FUSE_ROOT_ID + 1,
                                inode_autogenerated = (\<not> (rr \<and> inode (entry_ext slashdot) \<noteq> None)),
                                directory_number = 0, file_number = 0,
                                open_directories = Map.empty, open_files = Map.empty\<rparr>), r))
               | (Some Hang, _, r) \<Rightarrow> (Hang, r)
               | (_, _, r) \<Rightarrow> (Panic, r))
          | (Throw e, r) \<Rightarrow> (Throw e, r)
          | (Panic, r) \<Rightarrow> (Panic, r)
          | (Hang, r) \<Rightarrow> (Hang, r))
     | (Throw e, r) \<Rightarrow> (Throw e, r)
     | (Panic, r) \<Rightarrow> (Panic, r)
     | (Hang, r) \<Rightarrow> (Hang, r))"

text \<open>The inode of an entry: the next number, or the one the entry records.\<close>

definition entry_inode :: "ISOFuse \<Rightarrow> DirectoryEntry \<Rightarrow> ('e, u64) exec" where
  "entry_inode self entry =
    (if inode_autogenerated self then Ret (inode_number self)
     else unwrap (map_option unat (inode (entry_ext entry))))"

definition bump_inode :: "ISOFuse \<Rightarrow> ISOFuse" where
  "bump_inode self =
    (if inode_autogenerated self then self\<lparr>inode_number := inode_number self + 1\<rparr> else self)"

definition fuse_lookup ::
    "'z susp_build_scheme \<Rightarrow> fuse_env \<Rightarrow> 'r reader \<Rightarrow> ISOFuse \<Rightarrow> u64 \<Rightarrow> u8 list \<Rightarrow> 'r \<Rightarrow>
     (ISOError, reply) exec \<times> ISOFuse \<times> 'r" where
  "fuse_lookup B env rd self parent name r =
    (case inodes self parent of
       None \<Rightarrow> (Ret (ReplyError EINVAL), self, r)
     | Some (Directory parent_directory) \<Rightarrow>
         if inode_number self = u64_MAX then (Ret (ReplyError ENFILE), self, r)
         else
           (case from_utf8 name of
              None \<Rightarrow> (Panic, self, r)
            | Some name \<Rightarrow>
                (case find_entry B rd parent_directory name r of
                   (Ret (Some current_entry), r) \<Rightarrow>
                     (case and_then (entry_inode self current_entry) (\<lambda>ino.
                           and_then (get_fileattr B env ino current_entry) (\<lambda>fileattr.
                           Ret (ino, fileattr))) of
                        Ret (ino, fileattr) \<Rightarrow>
                          (Ret (ReplyEntry fileattr),
                           bump_inode (self\<lparr>inodes := (inodes self)(ino \<mapsto> current_entry)\<rparr>), r)
                      | Throw e \<Rightarrow> (Throw e, self, r)
                      | Panic \<Rightarrow> (Panic, self, r)
                      | Hang \<Rightarrow> (Hang, self, r))
                 | (Panic, r) \<Rightarrow> (Panic, self, r)
                 | (Hang, r) \<Rightarrow> (Hang, self, r)
                 | (_, r) \<Rightarrow> (Ret (ReplyError ENOENT), self, r)))
     | Some _ \<Rightarrow> (Ret (ReplyError ENOTDIR), self, r))"

definition fuse_forget :: "ISOFuse \<Rightarrow> u64 \<Rightarrow> u64 \<Rightarrow> ISOFuse" where
  "fuse_forget self ino nlookup = self\<lparr>inodes := (inodes self)(ino := None)\<rparr>"

definition fuse_getattr ::
    "'z build_scheme \<Rightarrow> fuse_env \<Rightarrow> ISOFuse \<Rightarrow> u64 \<Rightarrow> (ISOError, reply) exec" where
  "fuse_getattr B env self ino =
    (case inodes self ino of
       None \<Rightarrow> Ret (ReplyError EINVAL)
     | Some entry \<Rightarrow> and_then (get_fileattr B env ino entry) (\<lambda>fileattr. Ret (ReplyAttr fileattr)))"

definition fuse_readlink :: "ISOFuse \<Rightarrow> u64 \<Rightarrow> reply" where
  "fuse_readlink self ino =
    (case inodes self ino of
       None \<Rightarrow> ReplyError EINVAL
     | Some (Symlink symlink) \<Rightarrow>
         (case Symlink_target symlink of
            Some target \<Rightarrow> ReplyData (as_bytes target)
          | None \<Rightarrow> ReplyError EINVAL)
     | Some _ \<Rightarrow> ReplyError EINVAL)"

definition fuse_open :: "ISOFuse \<Rightarrow> u64 \<Rightarrow> reply \<times> ISOFuse" where
  "fuse_open self ino =
    (case inodes self ino of
       None \<Rightarrow> (ReplyError EINVAL, self)
     | Some (File file) \<Rightarrow>
         if file_number self = u64_MAX then (ReplyError ENFILE, self)
         else
           (ReplyOpened (file_number self),
            self\<lparr>open_files := (open_files self)(file_number self \<mapsto> ISOFile_read file),
                 file_number := file_number self + 1\<rparr>)
     | Some _ \<Rightarrow> (ReplyError EISDIR, self))"

definition fuse_read ::
    "'z build_scheme \<Rightarrow> 'r reader \<Rightarrow> ISOFuse \<Rightarrow> u64 \<Rightarrow> int \<Rightarrow> u32 \<Rightarrow> 'r \<Rightarrow>
     (ISOError, reply) exec \<times> ISOFuse \<times> 'r" where
  "fuse_read B rd self fh offset size' r =
    (if offset < 0 then (Ret (ReplyError EINVAL), self, r)
     else
       (case open_files self fh of
          None \<Rightarrow> (Ret (ReplyError EINVAL), self, r)
        | Some file \<Rightarrow>
            (case ISOFileReader_seek B file (Start (nat offset)) of
               (Ret _, file) \<Rightarrow>
                 (case ISOFileReader_read rd file (replicate (unat size') 0) r of
                    (res, file, buf, r) \<Rightarrow>
                      (case res of
                         Ret n \<Rightarrow> and_then (slice_of 0 n buf) (\<lambda>data. Ret (ReplyData data))
                       | Throw e \<Rightarrow> Ret (ReplyError EIO)
                       | Panic \<Rightarrow> Panic
                       | Hang \<Rightarrow> Hang,
                       self\<lparr>open_files := (open_files self)(fh \<mapsto> file)\<rparr>, r))
             | (Throw e, file) \<Rightarrow>
                 (Ret (ReplyError EIO), self\<lparr>open_files := (open_files self)(fh \<mapsto> file)\<rparr>, r)
             | (Panic, file) \<Rightarrow> (Panic, self\<lparr>open_files := (open_files self)(fh \<mapsto> file)\<rparr>, r)
             | (Hang, file) \<Rightarrow> (Hang, self\<lparr>open_files := (open_files self)(fh \<mapsto> file)\<rparr>, r))))"

definition fuse_release :: "ISOFuse \<Rightarrow> u64 \<Rightarrow> reply \<times> ISOFuse" where
  "fuse_release self fh =
    (case open_files self fh of
       Some _ \<Rightarrow> (ReplyOk, self\<lparr>open_files := (open_files self)(fh := None)\<rparr>)
     | None \<Rightarrow> (ReplyError EINVAL, self))"

definition fuse_opendir :: "ISOFuse \<Rightarrow> u64 \<Rightarrow> reply \<times> ISOFuse" where
  "fuse_opendir self ino =
    (case inodes self ino of
       None \<Rightarrow> (ReplyError EINVAL, self)
     | Some (Directory directory) \<Rightarrow>
         if directory_number self = u64_MAX then (ReplyError ENFILE, self)
         else
           (ReplyOpened (directory_number self),
            self\<lparr>open_directories := (open_directories self)(directory_number self \<mapsto> directory),
                 directory_number := directory_number self + 1\<rparr>)
     | Some _ \<Rightarrow> (ReplyError ENOTDIR, self))"

definition fuse_getxattr :: reply where
  "fuse_getxattr = ReplyError ENOTSUP"

text \<open>\<open>next_offset.map(i64::try_from).transpose()\<close> and \<open>unwrap_or(-1)\<close>.\<close>

definition fuse_offset :: "u64 option \<Rightarrow> int option" where
  "fuse_offset nxt =
    (case nxt of
       None \<Rightarrow> Some (- 1)
     | Some off \<Rightarrow> if off < 2 ^ 63 then Some (int off) else None)"

record readdir_state =
  rs_self :: ISOFuse
  rs_block :: "u8 list"
  rs_block_num :: "u64 option"
  rs_offset :: u64
  rs_added :: "dir_reply list"

text \<open>One turn of the loop of \<open>readdir\<close> after an entry has been read: \<open>Inl\<close> leaves the loop with a
  reply, \<open>Inr\<close> goes on.\<close>

definition readdir_entry ::
    "fuse_env \<Rightarrow> readdir_state \<Rightarrow> DirectoryEntry \<Rightarrow> u64 option \<Rightarrow>
     (ISOError, (reply \<times> ISOFuse) + readdir_state) exec" where
  "readdir_entry env st entry nxt =
    (let self = rs_self st; added = rs_added st in
     if attr_relocated (entry_ext entry) then
       Ret (case nxt of
              Some off \<Rightarrow> Inr (st\<lparr>rs_offset := off\<rparr>)
            | None \<Rightarrow> Inl (ReplyDirectory added, self))
     else
       (case fuse_offset nxt of
          None \<Rightarrow> Ret (Inl (ReplyError EINVAL, self))
        | Some off \<Rightarrow>
            and_then (entry_inode self entry) (\<lambda>ino.
            let new = (ino, off, entry_to_filetype entry, entry_identifier entry) in
            if reply_add_full env added new then Ret (Inl (ReplyDirectory added, self))
            else
              let added = added @ [new];
                  self = (if entry_identifier entry \<noteq> lit ''.'' \<and> entry_identifier entry \<noteq> lit ''..''
                          then self\<lparr>inodes := (inodes self)(ino \<mapsto> entry)\<rparr> else self);
                  self = bump_inode self in
              Ret (case nxt of
                     Some off \<Rightarrow> Inr (st\<lparr>rs_self := self, rs_added := added, rs_offset := off\<rparr>)
                   | None \<Rightarrow> Inl (ReplyDirectory added, self)))))"

partial_function (option) readdir_loop ::
    "'z susp_build_scheme \<Rightarrow> fuse_env \<Rightarrow> 'r reader \<Rightarrow> ISODirectory \<Rightarrow> readdir_state \<Rightarrow> 'r \<Rightarrow>
     ((ISOError, reply) exec \<times> ISOFuse \<times> 'r) option" where
  "readdir_loop B env rd dir st r =
    (if inode_number (rs_self st) = u64_MAX then Some (Ret (ReplyError ENFILE), rs_self st, r)
     else
       (case read_entry_at B rd dir (rs_block st) (rs_block_num st) (rs_offset st) r of
          (Ret (entry, nxt), block, block_num, r) \<Rightarrow>
            (case readdir_entry env (st\<lparr>rs_block := block, rs_block_num := block_num\<rparr>) entry nxt of
               Ret (Inl (reply, self)) \<Rightarrow> Some (Ret reply, self, r)
             | Ret (Inr st) \<Rightarrow> readdir_loop B env rd dir st r
             | Throw e \<Rightarrow> Some (Throw e, rs_self st, r)
             | Panic \<Rightarrow> Some (Panic, rs_self st, r)
             | Hang \<Rightarrow> Some (Hang, rs_self st, r))
        | (Throw e, block, block_num, r) \<Rightarrow> Some (Ret (ReplyError EINVAL), rs_self st, r)
        | (Panic, block, block_num, r) \<Rightarrow> Some (Panic, rs_self st, r)
        | (Hang, block, block_num, r) \<Rightarrow> Some (Hang, rs_self st, r)))"

definition fuse_readdir ::
    "'z susp_build_scheme \<Rightarrow> fuse_env \<Rightarrow> 'r reader \<Rightarrow> ISOFuse \<Rightarrow> u64 \<Rightarrow> int \<Rightarrow> 'r \<Rightarrow>
     (ISOError, reply) exec \<times> ISOFuse \<times> 'r" where
  "fuse_readdir B env rd self fh offset r =
    (case open_directories self fh of
       None \<Rightarrow> (Ret (ReplyError EINVAL), self, r)
     | Some dir \<Rightarrow>
         if offset = - 1 then (Ret (ReplyDirectory []), self, r)
         else if offset < 0 then (Ret (ReplyError EINVAL), self, r)
         else
           (case readdir_loop B env rd dir
                   \<lparr>rs_self = self, rs_block = BlockBuffer_new, rs_block_num = None,
                    rs_offset = nat offset, rs_added = []\<rparr> r of
              Some x \<Rightarrow> x
            | None \<Rightarrow> (Hang, self, r)))"

definition fuse_releasedir :: "ISOFuse \<Rightarrow> u64 \<Rightarrow> reply \<times> ISOFuse" where
  "fuse_releasedir self fh =
    (case open_directories self fh of
       Some _ \<Rightarrow> (ReplyOk, self\<lparr>open_directories := (open_directories self)(fh := None)\<rparr>)
     | None \<Rightarrow> (ReplyError EINVAL, self))"

end
