(* ===== verification/Fuse_Facts.thy ===== *)
theory Fuse_Facts
  imports Fuse
begin

text \<open>
  The FUSE server as a state machine: the requests it serves, the invariant of its tables, the
  handles it gives out, and what reads through an open file return along a run of the server.
\<close>

section \<open>Requests and runs\<close>

datatype request =
    Lookup u64 "u8 list"
  | Forget u64 u64
  | Getattr u64
  | Readlink u64
  | Open u64
  | Read u64 int u32
  | Release u64
  | Opendir u64
  | Getxattr
  | Readdir u64 int
  | Releasedir u64

definition fuse_handle ::
    "'z susp_build_scheme \<Rightarrow> fuse_env \<Rightarrow> 'r reader \<Rightarrow> request \<Rightarrow> ISOFuse \<Rightarrow> 'r \<Rightarrow>
     (ISOError, reply) exec \<times> ISOFuse \<times> 'r" where
  "fuse_handle B env rd req self r =
    (case req of
       Lookup parent name \<Rightarrow> fuse_lookup B env rd self parent name r
     | Forget ino n \<Rightarrow> (Ret ReplyOk, fuse_forget self ino n, r)
     | Getattr ino \<Rightarrow> (fuse_getattr B env self ino, self, r)
     | Readlink ino \<Rightarrow> (Ret (fuse_readlink self ino), self, r)
     | Open ino \<Rightarrow> (case fuse_open self ino of (reply, self) \<Rightarrow> (Ret reply, self, r))
     | Read fh offset size' \<Rightarrow> fuse_read B rd self fh offset size' r
     | Release fh \<Rightarrow> (case fuse_release self fh of (reply, self) \<Rightarrow> (Ret reply, self, r))
     | Opendir ino \<Rightarrow> (case fuse_opendir self ino of (reply, self) \<Rightarrow> (Ret reply, self, r))
     | Getxattr \<Rightarrow> (Ret fuse_getxattr, self, r)
     | Readdir fh offset \<Rightarrow> fuse_readdir B env rd self fh offset r
     | Releasedir fh \<Rightarrow> (case fuse_releasedir self fh of (reply, self) \<Rightarrow> (Ret reply, self, r)))"

text \<open>A run of the server: the requests with their replies, as long as no handler unwinds or hangs.\<close>

inductive fuse_run ::
    "'z susp_build_scheme \<Rightarrow> fuse_env \<Rightarrow> 'r reader \<Rightarrow> ISOFuse \<Rightarrow> 'r \<Rightarrow> (request \<times> reply) list \<Rightarrow>
     ISOFuse \<Rightarrow> 'r \<Rightarrow> bool"
  for B env rd where
  run_done: "fuse_run B env rd self r [] self r"
| run_step: "fuse_handle B env rd req self r = (Ret reply, self1, r1) \<Longrightarrow>
    fuse_run B env rd self1 r1 trace self2 r2 \<Longrightarrow>
    fuse_run B env rd self r ((req, reply) # trace) self2 r2"

section \<open>The invariant of the tables\<close>

text \<open>The keys of a table are below the counter that numbers them.\<close>

definition below :: "(nat \<rightharpoonup> 'v) \<Rightarrow> nat \<Rightarrow> bool" where
  "below m n \<longleftrightarrow> (\<forall>h \<in> dom m. h < n)"

lemma below_empty [simp]: "below (\<lambda>_. None) n"
  by (simp add: below_def)

lemma below_insert [intro]: "below m n \<Longrightarrow> below (m(n \<mapsto> v)) (Suc n)"
  by (auto simp: below_def less_Suc_eq)

lemma below_update [intro]: "below m n \<Longrightarrow> m h = Some v \<Longrightarrow> below (m(h \<mapsto> v')) n"
  by (auto simp: below_def)

lemma below_remove [intro]: "below m n \<Longrightarrow> below (m(h := None)) n"
  by (auto simp: below_def)

lemma below_Suc: "below m n \<Longrightarrow> below m (Suc n)"
  by (auto simp: below_def less_Suc_eq)

definition fuse_ok :: "ISOFuse \<Rightarrow> bool" where
  "fuse_ok self \<longleftrightarrow>
    below (open_files self) (file_number self) \<and> file_number self \<le> u64_MAX
    \<and> below (open_directories self) (directory_number self) \<and> directory_number self \<le> u64_MAX
    \<and> (inode_autogenerated self \<longrightarrow> below (inodes self) (inode_number self))
    \<and> inode_number self \<le> u64_MAX"

text \<open>What a lookup and a directory listing leave alone.\<close>

definition same_tables :: "ISOFuse \<Rightarrow> ISOFuse \<Rightarrow> bool" where
  "same_tables self self' \<longleftrightarrow>
    open_files self' = open_files self \<and> file_number self' = file_number self
    \<and> open_directories self' = open_directories self \<and> directory_number self' = directory_number self
    \<and> inode_autogenerated self' = inode_autogenerated self \<and> fuse_iso self' = fuse_iso self"

lemma same_tables_refl [simp]: "same_tables self self"
  by (simp add: same_tables_def)

lemma same_tables_trans: "same_tables a b \<Longrightarrow> same_tables b c \<Longrightarrow> same_tables a c"
  by (simp add: same_tables_def)

lemma insert_inode_ok:
  assumes "fuse_ok self" and "entry_inode self entry = (Ret ino :: ('e, _) exec)" and "inode_number self \<noteq> u64_MAX"
  shows "fuse_ok (bump_inode (self\<lparr>inodes := (inodes self)(ino \<mapsto> entry)\<rparr>))"
    and "fuse_ok (bump_inode self)"
  using assms by (auto simp: fuse_ok_def bump_inode_def entry_inode_def below_Suc)

lemma same_tables_bump [simp]:
  "same_tables self (bump_inode self)" "same_tables self (bump_inode (self\<lparr>inodes := m\<rparr>))"
  by (simp_all add: same_tables_def bump_inode_def)

lemma fuse_lookup_ok:
  assumes "fuse_lookup B env rd self parent name r = (res, self', r')" and "fuse_ok self"
  shows "fuse_ok self' \<and> same_tables self self'"
  using assms
  by (auto simp: fuse_lookup_def intro: insert_inode_ok
      split: option.splits DirectoryEntry.splits if_splits prod.splits exec.splits)

lemma readdir_entry_ok:
  assumes "readdir_entry env st entry nxt = Ret out" and "fuse_ok (rs_self st)"
    and "inode_number (rs_self st) \<noteq> u64_MAX"
  shows "case out of
      Inl (reply, self') \<Rightarrow> fuse_ok self' \<and> same_tables (rs_self st) self'
    | Inr st' \<Rightarrow> fuse_ok (rs_self st') \<and> same_tables (rs_self st) (rs_self st')
        \<and> rs_block st' = rs_block st \<and> rs_block_num st' = rs_block_num st \<and> nxt = Some (rs_offset st')"
  using assms
  by (auto simp: readdir_entry_def Let_def intro: insert_inode_ok
      split: option.splits if_splits)

lemma readdir_loop_ok:
  assumes "readdir_loop B env rd dir st r = Some (res, self', r')" and "fuse_ok (rs_self st)"
  shows "fuse_ok self' \<and> same_tables (rs_self st) self'"
proof -
  have "fuse_ok (rs_self st) \<longrightarrow> fuse_ok (fst (snd y)) \<and> same_tables (rs_self st) (fst (snd y))"
    if "readdir_loop B env rd dir st r = Some y" for B env and rd :: "'r reader" and dir st r y
    using _ that
  proof (rule readdir_loop.raw_induct, intro impI)
    fix loop :: "_ \<Rightarrow> _ \<Rightarrow> 'r reader \<Rightarrow> _" and B env rd dir st r y
    assume IH: "\<And>B env rd dir st r y. loop B env rd dir st r = Some y \<Longrightarrow>
        fuse_ok (rs_self st) \<longrightarrow> fuse_ok (fst (snd y)) \<and> same_tables (rs_self st) (fst (snd y))"
      and body: "(if inode_number (rs_self st) = u64_MAX then Some (Ret (ReplyError ENFILE), rs_self st, r)
     else
       (case read_entry_at B rd dir (rs_block st) (rs_block_num st) (rs_offset st) r of
          (Ret (entry, nxt), block, block_num, r) \<Rightarrow>
            (case readdir_entry env (st\<lparr>rs_block := block, rs_block_num := block_num\<rparr>) entry nxt of
               Ret (Inl (reply, self)) \<Rightarrow> Some (Ret reply, self, r)
             | Ret (Inr st) \<Rightarrow> loop B env rd dir st r
             | Throw e \<Rightarrow> Some (Throw e, rs_self st, r)
             | Panic \<Rightarrow> Some (Panic, rs_self st, r)
             | Hang \<Rightarrow> Some (Hang, rs_self st, r))
        | (Throw e, block, block_num, r) \<Rightarrow> Some (Ret (ReplyError EINVAL), rs_self st, r)
        | (Panic, block, block_num, r) \<Rightarrow> Some (Panic, rs_self st, r)
        | (Hang, block, block_num, r) \<Rightarrow> Some (Hang, rs_self st, r))) = Some y"
      and ok: "fuse_ok (rs_self st)"
    show "fuse_ok (fst (snd y)) \<and> same_tables (rs_self st) (fst (snd y))"
      using body ok
      by (auto split: if_splits prod.splits exec.splits sum.splits
          dest!: IH readdir_entry_ok dest: same_tables_trans)
  qed
  from this [OF assms(1)] assms(2) show ?thesis by simp
qed

lemma fuse_readdir_ok:
  assumes "fuse_readdir B env rd self fh offset r = (res, self', r')" and "fuse_ok self"
  shows "fuse_ok self' \<and> same_tables self self'"
  using assms by (auto simp: fuse_readdir_def split: option.splits if_splits dest!: readdir_loop_ok)

text \<open>A read changes the reader of its own handle only.\<close>

lemma fuse_read_frame:
  assumes "fuse_read B rd self fh offset size' r = (res, self', r')"
  shows "self' = self \<or> (\<exists>file file'. open_files self fh = Some file
    \<and> self' = self\<lparr>open_files := (open_files self)(fh \<mapsto> file')\<rparr>)"
  using assms by (auto simp: fuse_read_def split: option.splits if_splits prod.splits exec.splits)

lemma fuse_open_eq:
  "(\<exists>f. inodes self ino = Some (File f) \<and> file_number self \<noteq> u64_MAX
     \<and> fuse_open self ino = (ReplyOpened (file_number self),
       self\<lparr>open_files := (open_files self)(file_number self \<mapsto> ISOFile_read f),
            file_number := file_number self + 1\<rparr>))
   \<or> (\<exists>e. fuse_open self ino = (ReplyError e, self))"
  by (simp add: fuse_open_def split: option.splits DirectoryEntry.splits)

lemma fuse_opendir_eq:
  "(\<exists>d. inodes self ino = Some (Directory d) \<and> directory_number self \<noteq> u64_MAX
     \<and> fuse_opendir self ino = (ReplyOpened (directory_number self),
       self\<lparr>open_directories := (open_directories self)(directory_number self \<mapsto> d),
            directory_number := directory_number self + 1\<rparr>))
   \<or> (\<exists>e. fuse_opendir self ino = (ReplyError e, self))"
  by (simp add: fuse_opendir_def split: option.splits DirectoryEntry.splits)

lemma open_file_ok:
  "fuse_ok self \<Longrightarrow> file_number self \<noteq> u64_MAX \<Longrightarrow>
    fuse_ok (self\<lparr>open_files := (open_files self)(file_number self \<mapsto> v), file_number := file_number self + 1\<rparr>)"
  by (auto simp: fuse_ok_def)

lemma open_directory_ok:
  "fuse_ok self \<Longrightarrow> directory_number self \<noteq> u64_MAX \<Longrightarrow>
    fuse_ok (self\<lparr>open_directories := (open_directories self)(directory_number self \<mapsto> v),
      directory_number := directory_number self + 1\<rparr>)"
  by (auto simp: fuse_ok_def)

lemma fuse_handle_ok:
  assumes "fuse_handle B env rd req self r = (res, self', r')" and "fuse_ok self"
  shows "fuse_ok self'"
proof (cases req)
  case (Lookup parent name)
  then show ?thesis using assms fuse_lookup_ok [of B env rd self parent name r] by (simp add: fuse_handle_def)
next
  case (Forget ino n)
  then show ?thesis using assms by (auto simp: fuse_handle_def fuse_forget_def fuse_ok_def)
next
  case (Open ino)
  then show ?thesis using assms fuse_open_eq [of self ino] open_file_ok [OF assms(2)]
    by (auto simp: fuse_handle_def)
next
  case (Read fh offset size')
  then show ?thesis using assms fuse_read_frame [of B rd self fh offset size' r res self' r']
    by (auto simp: fuse_handle_def fuse_ok_def)
next
  case (Opendir ino)
  then show ?thesis using assms fuse_opendir_eq [of self ino] open_directory_ok [OF assms(2)]
    by (auto simp: fuse_handle_def)
next
  case (Readdir fh offset)
  then show ?thesis using assms fuse_readdir_ok [of B env rd self fh offset r] by (simp add: fuse_handle_def)
qed (use assms in \<open>auto simp: fuse_handle_def fuse_release_def fuse_releasedir_def fuse_ok_def
  split: option.splits if_splits\<close>)

lemma ISOFuse_new_ok: "ISOFuse_new B rd r = (Ret self, r') \<Longrightarrow> fuse_ok self"
  using below_insert [OF below_empty, of 1]
  by (auto simp: ISOFuse_new_def fuse_ok_def split: prod.splits exec.splits option.splits)

section \<open>Handles\<close>

text \<open>Any system that numbers what it opens from a counter: its handles increase along a run.\<close>

fun steps :: "('s \<Rightarrow> 'a \<Rightarrow> 's \<Rightarrow> bool) \<Rightarrow> 's \<Rightarrow> 'a list \<Rightarrow> 's \<Rightarrow> bool" where
  "steps step s [] s' \<longleftrightarrow> s' = s"
| "steps step s (a # as) s' \<longleftrightarrow> (\<exists>s1. step s a s1 \<and> steps step s1 as s')"

locale handle_counter =
  fixes step :: "'s \<Rightarrow> 'a \<Rightarrow> 's \<Rightarrow> bool" and number :: "'s \<Rightarrow> nat" and opened :: "'a \<Rightarrow> nat option"
  assumes opens: "step s a s' \<Longrightarrow> opened a = Some h \<Longrightarrow> h = number s \<and> number s' = Suc h"
    and keeps: "step s a s' \<Longrightarrow> opened a = None \<Longrightarrow> number s' = number s"
begin

lemma handles_increase:
  assumes "steps step s as s'"
  shows "sorted_wrt (<) (List.map_filter opened as) \<and> number s \<le> number s'
    \<and> (\<forall>h \<in> set (List.map_filter opened as). number s \<le> h \<and> h < number s')"
  using assms
proof (induction as arbitrary: s)
  case Nil
  then show ?case by (simp add: List.map_filter_simps)
next
  case (Cons a as)
  then obtain s1 where s1: "step s a s1" "steps step s1 as s'" by auto
  note IH = Cons.IH [OF s1(2)]
  show ?case
  proof (cases "opened a")
    case None
    with keeps [OF s1(1)] IH show ?thesis by (simp add: List.map_filter_simps)
  next
    case (Some h)
    with opens [OF s1(1)] IH show ?thesis by (auto simp: List.map_filter_simps Suc_le_eq)
  qed
qed

lemma handles_distinct: "steps step s as s' \<Longrightarrow> distinct (List.map_filter opened as)"
  using handles_increase strict_sorted_iff by blast

end

definition fuse_step ::
    "'z susp_build_scheme \<Rightarrow> fuse_env \<Rightarrow> 'r reader \<Rightarrow> ISOFuse \<times> 'r \<Rightarrow> request \<times> reply \<Rightarrow> ISOFuse \<times> 'r \<Rightarrow> bool" where
  "fuse_step B env rd s a s' \<longleftrightarrow>
    fuse_handle B env rd (fst a) (fst s) (snd s) = (Ret (snd a), fst s', snd s')"

definition opened_file :: "request \<times> reply \<Rightarrow> u64 option" where
  "opened_file a = (case a of (Open _, ReplyOpened h) \<Rightarrow> Some h | _ \<Rightarrow> None)"

definition opened_directory :: "request \<times> reply \<Rightarrow> u64 option" where
  "opened_directory a = (case a of (Opendir _, ReplyOpened h) \<Rightarrow> Some h | _ \<Rightarrow> None)"

lemma fuse_handle_numbers:
  assumes "fuse_handle B env rd req self r = (Ret reply, self', r')" and "fuse_ok self"
  shows "opened_file (req, reply) = Some h \<Longrightarrow> h = file_number self \<and> file_number self' = Suc h"
    and "opened_file (req, reply) = None \<Longrightarrow> file_number self' = file_number self"
    and "opened_directory (req, reply) = Some h \<Longrightarrow> h = directory_number self \<and> directory_number self' = Suc h"
    and "opened_directory (req, reply) = None \<Longrightarrow> directory_number self' = directory_number self"
proof -
  have "(opened_file (req, reply) = Some h \<longrightarrow> h = file_number self \<and> file_number self' = Suc h)
    \<and> (opened_file (req, reply) = None \<longrightarrow> file_number self' = file_number self)
    \<and> (opened_directory (req, reply) = Some h \<longrightarrow> h = directory_number self \<and> directory_number self' = Suc h)
    \<and> (opened_directory (req, reply) = None \<longrightarrow> directory_number self' = directory_number self)"
  proof (cases req)
    case (Lookup parent name)
    then show ?thesis using assms fuse_lookup_ok [of B env rd self parent name r]
      by (simp add: fuse_handle_def same_tables_def opened_file_def opened_directory_def)
  next
    case (Open ino)
    then show ?thesis using assms fuse_open_eq [of self ino]
      by (auto simp: fuse_handle_def opened_file_def opened_directory_def)
  next
    case (Read fh offset size')
    then show ?thesis using assms fuse_read_frame [of B rd self fh offset size' r "Ret reply" self' r']
      by (auto simp: fuse_handle_def opened_file_def opened_directory_def)
  next
    case (Opendir ino)
    then show ?thesis using assms fuse_opendir_eq [of self ino]
      by (auto simp: fuse_handle_def opened_file_def opened_directory_def)
  next
    case (Readdir fh offset)
    then show ?thesis using assms fuse_readdir_ok [of B env rd self fh offset r]
      by (simp add: fuse_handle_def same_tables_def opened_file_def opened_directory_def)
  qed (use assms in \<open>auto simp: fuse_handle_def fuse_release_def fuse_releasedir_def fuse_forget_def
    opened_file_def opened_directory_def split: option.splits\<close>)
  then show "opened_file (req, reply) = Some h \<Longrightarrow> h = file_number self \<and> file_number self' = Suc h"
    and "opened_file (req, reply) = None \<Longrightarrow> file_number self' = file_number self"
    and "opened_directory (req, reply) = Some h \<Longrightarrow> h = directory_number self \<and> directory_number self' = Suc h"
    and "opened_directory (req, reply) = None \<Longrightarrow> directory_number self' = directory_number self"
    by blast+
qed

text \<open>The states the server can be in.\<close>

interpretation file_handles: handle_counter
  "\<lambda>s a s'. fuse_step B env rd s a s' \<and> fuse_ok (fst s)" "\<lambda>s. file_number (fst s)" opened_file
  by unfold_locales (auto simp: fuse_step_def dest: fuse_handle_numbers)

interpretation directory_handles: handle_counter
  "\<lambda>s a s'. fuse_step B env rd s a s' \<and> fuse_ok (fst s)" "\<lambda>s. directory_number (fst s)" opened_directory
  by unfold_locales (auto simp: fuse_step_def dest: fuse_handle_numbers)

lemma fuse_run_ok: "fuse_run B env rd self r trace self' r' \<Longrightarrow> fuse_ok self \<Longrightarrow> fuse_ok self'"
  by (induction rule: fuse_run.induct) (auto dest: fuse_handle_ok)

lemma fuse_run_steps_ok:
  "fuse_run B env rd self r trace self' r' \<Longrightarrow> fuse_ok self \<Longrightarrow>
    steps (\<lambda>s a s'. fuse_step B env rd s a s' \<and> fuse_ok (fst s)) (self, r) trace (self', r')"
  by (induction rule: fuse_run.induct) (auto simp: fuse_step_def dest: fuse_handle_ok)

section \<open>The server over an image\<close>

text \<open>The offsets of requests are \<open>i64\<close>.\<close>

fun req_ok :: "request \<Rightarrow> bool" where
  "req_ok (Read fh offset size') \<longleftrightarrow> offset < 2 ^ 63"
| "req_ok (Readdir fh offset) \<longleftrightarrow> offset < 2 ^ 63"
| "req_ok _ \<longleftrightarrow> True"

text \<open>The handle \<open>h\<close> is an open reader of the file \<open>f\<close>, in agreement with the image.\<close>

definition file_contents :: "u8 list \<Rightarrow> ISOFile \<Rightarrow> u8 list" where
  "file_contents img f = img_at img (unat (extent_loc (file_header f)) * BLOCK_SIZE) (unat (ISOFile_size f))"

definition file_open :: "u8 list \<Rightarrow> ISOFile \<Rightarrow> ISOFuse \<Rightarrow> u64 \<Rightarrow> bool" where
  "file_open img f self h \<longleftrightarrow>
    (\<exists>rdr. open_files self h = Some rdr \<and> reader_ok img rdr \<and> file_bytes img rdr = file_contents img f)"

lemma slice_prefix: "slice_of 0 (length xs) (xs @ ys) = Ret xs"
  by (simp add: slice_of_def)

context image_directory begin

lemma find_entry_inv: "inv r \<Longrightarrow> \<exists>res r'. inv r' \<and> find_entry B rd dir name r = (res, r')"
  using dir_walk_exists [of "Some 0" img dir] find_entry_walk by fastforce

lemma fuse_lookup_inv:
  assumes "fuse_lookup B env rd self parent name r = (res, self', r')" and "inv r"
  shows "inv r'"
proof (cases "\<exists>dir nm. inodes self parent = Some (Directory dir) \<and> from_utf8 name = Some nm")
  case True
  then obtain dir nm where d: "inodes self parent = Some (Directory dir)" "from_utf8 name = Some nm" by blast
  obtain res1 r1 where "inv r1" "find_entry B rd dir nm r = (res1, r1)"
    using find_entry_inv [OF assms(2)] by blast
  then show ?thesis using assms d
    by (auto simp: fuse_lookup_def split: if_splits exec.splits option.splits prod.splits)
next
  case False
  then show ?thesis using assms
    by (auto simp: fuse_lookup_def split: if_splits option.splits DirectoryEntry.splits)
qed

lemma readdir_entry_st:
  "readdir_entry env st entry nxt = Ret (Inr st') \<Longrightarrow>
    rs_block st' = rs_block st \<and> rs_block_num st' = rs_block_num st \<and> nxt = Some (rs_offset st')"
  by (auto simp: readdir_entry_def Let_def split: option.splits if_splits)

lemma readdir_loop_inv:
  assumes "readdir_loop B env rd dir st r = Some (res, self', r')" and "inv r"
    and "dir_cache_ok img dir (rs_block st) (rs_block_num st)" and "rs_offset st < 2 ^ 63"
  shows "inv r'"
proof -
  have "B' = B \<longrightarrow> rd' = rd \<longrightarrow> inv r \<longrightarrow> dir_cache_ok img dir (rs_block st) (rs_block_num st) \<longrightarrow>
      rs_offset st < 2 ^ 63 \<longrightarrow> inv (snd (snd y))"
    if "readdir_loop B' env rd' dir st r = Some y" for B' env rd' dir st r y
    using _ that
  proof (rule readdir_loop.raw_induct, intro impI)
    fix loop :: "_ \<Rightarrow> _ \<Rightarrow> 'r reader \<Rightarrow> _" and B' :: "'z susp_build_scheme" and env rd' dir st r y
    assume IH: "\<And>B' env rd' dir st r y. loop B' env rd' dir st r = Some y \<Longrightarrow>
        B' = B \<longrightarrow> rd' = rd \<longrightarrow> inv r \<longrightarrow> dir_cache_ok img dir (rs_block st) (rs_block_num st) \<longrightarrow>
        rs_offset st < 2 ^ 63 \<longrightarrow> inv (snd (snd y))"
      and body: "(if inode_number (rs_self st) = u64_MAX then Some (Ret (ReplyError ENFILE), rs_self st, r)
     else
       (case read_entry_at B' rd' dir (rs_block st) (rs_block_num st) (rs_offset st) r of
          (Ret (entry, nxt), block, block_num, r) \<Rightarrow>
            (case readdir_entry env (st\<lparr>rs_block := block, rs_block_num := block_num\<rparr>) entry nxt of
               Ret (Inl (reply, self)) \<Rightarrow> Some (Ret reply, self, r)
             | Ret (Inr st) \<Rightarrow> loop B' env rd' dir st r
             | Throw e \<Rightarrow> Some (Throw e, rs_self st, r)
             | Panic \<Rightarrow> Some (Panic, rs_self st, r)
             | Hang \<Rightarrow> Some (Hang, rs_self st, r))
        | (Throw e, block, block_num, r) \<Rightarrow> Some (Ret (ReplyError EINVAL), rs_self st, r)
        | (Panic, block, block_num, r) \<Rightarrow> Some (Panic, rs_self st, r)
        | (Hang, block, block_num, r) \<Rightarrow> Some (Hang, rs_self st, r))) = Some y"
      and eqs: "B' = B" "rd' = rd" and ok: "inv r" "dir_cache_ok img dir (rs_block st) (rs_block_num st)"
        "rs_offset st < 2 ^ 63"
    obtain block num r1 where read: "inv r1" "dir_cache_ok img dir block num"
      "read_entry_at B rd dir (rs_block st) (rs_block_num st) (rs_offset st) r =
        (entry_at B img dir (rs_offset st), block, num, r1)"
      using read_entry_at_image [OF ok] by blast
    have prog: "off < 2 ^ 63" if "entry_at B img dir (rs_offset st) = Ret (e, Some off)" for e off
      using entry_at_progress [OF that] by simp
    show "inv (snd (snd y))"
      using body read ok(1) prog unfolding eqs
      by (auto split: if_splits exec.splits sum.splits prod.splits dest!: IH readdir_entry_st)
  qed
  from this [OF assms(1)] assms(2-4) show ?thesis by simp
qed

lemma fuse_readdir_inv:
  assumes "fuse_readdir B env rd self fh offset r = (res, self', r')" and "inv r" and "offset < 2 ^ 63"
  shows "inv r'"
  using assms
  by (auto simp: fuse_readdir_def split: option.splits if_splits
      elim!: readdir_loop_inv [where st = "\<lparr>rs_self = self, rs_block = BlockBuffer_new, rs_block_num = None,
        rs_offset = nat offset, rs_added = []\<rparr>"])

lemma fuse_read_file:
  assumes "file_open img f self h" and "inv r" and "0 \<le> offset" and "offset < 2 ^ 63"
  shows "\<exists>self' r'. inv r' \<and> file_open img f self' h \<and> fuse_read B rd self h offset size' r =
    (Ret (ReplyData (take (unat size') (drop (nat offset) (file_contents img f)))), self', r')"
proof -
  from assms(1) obtain rdr where rdr: "open_files self h = Some rdr" "reader_ok img rdr"
    "file_bytes img rdr = file_contents img f"
    by (auto simp: file_open_def)
  let ?rdr = "rdr\<lparr>fr_seek := nat offset\<rparr>" and ?buf = "replicate (unat size') (0 :: u8)"
  let ?got = "take (unat size') (drop (nat offset) (file_contents img f))"
  have seek: "ISOFileReader_seek B rdr (Start (nat offset)) = (Ret (nat offset), ?rdr)"
    using assms(3,4) by (simp add: ISOFileReader_seek_def wrap_i64_id)
  have "reader_ok img ?rdr" "file_bytes img ?rdr = file_contents img f"
    using rdr(2,3) by (simp_all add: reader_ok_def cache_ok_def extent_ok_def file_bytes_def)
  with read_refines [OF assms(2), of ?rdr ?buf] obtain rdr' r' where read: "inv r'" "reader_ok img rdr'"
    "file_bytes img rdr' = file_contents img f"
    "ISOFileReader_read rd ?rdr ?buf r = (Ret (length ?got), rdr', ?got @ drop (length ?got) ?buf, r')"
    by (auto simp: Let_def fc_read_def fc_abs_def)
  define got where "got = ?got"
  note read' = read(4) [folded got_def]
  let ?self = "self\<lparr>open_files := (open_files self)(h \<mapsto> rdr')\<rparr>"
  have "fuse_read B rd self h offset size' r = (Ret (ReplyData got), ?self, r')"
    using assms(3) by (simp add: fuse_read_def rdr(1) seek read' slice_prefix del: drop_replicate)
  moreover have "file_open img f ?self h" using read by (simp add: file_open_def)
  ultimately show ?thesis using read(1) unfolding got_def by blast
qed

lemma load_block_inv:
  assumes "inv r" and "lba < 2 ^ 53" and "load_block rd lba self r = (res, self', r')"
  shows "inv r' \<and> fr_size self' = fr_size self \<and> start_lba self' = start_lba self"
proof (cases "buf_lba self = Some lba")
  case True
  then show ?thesis using assms by (simp add: load_block_def)
next
  case False
  obtain n buf r1 where "inv r1" "FileRef_read_at rd r (fr_buf self) lba = (Ret n, buf, r1)"
    using FileRef_read_imageE [OF assms(1,2), of "fr_buf self"] by metis
  then show ?thesis using assms(3) False by (auto simp: load_block_def)
qed

lemma read_loop_inv:
  assumes "inv r" and "fr_size self < 2 ^ 32" and "read_loop rd room seek self out r = (res, self', out', r')"
  shows "inv r' \<and> fr_size self' = fr_size self"
  using assms
proof (induction room arbitrary: seek self out r rule: less_induct)
  case (less room)
  show ?case
  proof (cases "0 < room \<and> seek < fr_size self")
    case False
    have "read_loop rd room seek self out r = (Ret seek, self, out, r)"
      by (rule trans [OF read_loop.simps if_not_P [OF False]])
    then show ?thesis using less.prems by simp
  next
    case True
    let ?lba = "unat (start_lba self) + seek div BLOCK_SIZE"
    have "?lba < 2 ^ 53"
      using unsigned_less [of "start_lba self", where 'a = nat] div_le_dividend [of seek 2048] True less.prems(2)
      by (simp del: div_le_dividend)
    obtain lres self1 r1 where load: "load_block rd ?lba self r = (lres, self1, r1)" by (metis prod_cases3)
    note ok = load_block_inv [OF less.prems(1) \<open>?lba < 2 ^ 53\<close> load]
    let ?s = "seek mod BLOCK_SIZE" and ?e = "min (fr_size self - seek div BLOCK_SIZE * BLOCK_SIZE) BLOCK_SIZE"
    have unfold: "read_loop rd room seek self out r =
      (case lres of
         Ret _ \<Rightarrow>
           (case (slice_of ?s ?e (fr_buf self1) :: (io_error, u8 list) exec) of
              Ret data \<Rightarrow>
                let k = min room (length data) in
                read_loop rd (room - k) (seek + k) self1 (out @ take k data) r1
            | _ \<Rightarrow> (Panic, self1, out, r1))
       | Throw e \<Rightarrow> (Throw e, self1, out, r1)
       | Panic \<Rightarrow> (Panic, self1, out, r1)
       | Hang \<Rightarrow> (Hang, self1, out, r1))"
      by (rule trans [OF read_loop.simps])
        (use True in \<open>simp add: load Let_def split: exec.splits\<close>)
    show ?thesis
    proof (cases "\<exists>u data. lres = Ret u \<and> slice_of ?s ?e (fr_buf self1) = (Ret data :: (io_error, u8 list) exec)")
      case True': True
      then obtain u data where d: "lres = Ret u" "slice_of ?s ?e (fr_buf self1) = (Ret data :: (io_error, u8 list) exec)"
        by blast
      have "?s < ?e" using True by (intro div_mult_lt) simp_all
      then have "0 < length data" using d(2) by auto
      then have "room - min room (length data) < room" using True by simp
      from less.IH [OF this, of r1 self1 "seek + min room (length data)" "out @ take (min room (length data)) data"]
      show ?thesis using less.prems ok unfold d by (simp add: Let_def)
    next
      case False
      then show ?thesis using less.prems ok unfold by (auto split: exec.splits)
    qed
  qed
qed

lemma file_open_frame:
  "file_open img f self h \<Longrightarrow> open_files self' h = open_files self h \<Longrightarrow> file_open img f self' h"
  by (simp add: file_open_def)

lemma ISOFileReader_read_inv:
  assumes "inv r" and "fr_size self < 2 ^ 32" and "ISOFileReader_read rd self buf r = (res, self', buf', r')"
  shows "inv r' \<and> fr_size self' = fr_size self"
proof -
  obtain lres self1 out r1 where loop: "read_loop rd (length buf) (fr_seek self) self [] r = (lres, self1, out, r1)"
    by (metis prod_cases4)
  from read_loop_inv [OF assms(1,2) loop] show ?thesis
    using assms(3) loop by (cases lres) (auto simp: ISOFileReader_read_def)
qed

lemma seek_size: "fr_size (snd (ISOFileReader_seek B self pos)) = fr_size self"
  by (auto simp: ISOFileReader_seek_def split: exec.splits)

text \<open>The sizes of open files are those of directory records.\<close>

lemma fuse_read_inv:
  assumes "fuse_read B rd self fh offset size' r = (res, self', r')" and "inv r"
    and "\<forall>h rdr. open_files self h = Some rdr \<longrightarrow> fr_size rdr < 2 ^ 32"
  shows "inv r' \<and> (\<forall>h rdr. open_files self' h = Some rdr \<longrightarrow> fr_size rdr < 2 ^ 32)"
proof (cases "0 \<le> offset \<and> open_files self fh \<noteq> None")
  case True
  then obtain fl where fl: "open_files self fh = Some fl" by auto
  obtain sres fl1 where seek: "ISOFileReader_seek B fl (Start (nat offset)) = (sres, fl1)" by fastforce
  obtain rres fl2 buf r2 where read: "ISOFileReader_read rd fl1 (replicate (unat size') 0) r = (rres, fl2, buf, r2)"
    by (metis prod_cases4)
  have "fr_size fl < 2 ^ 32" using assms(3) fl by blast
  then have "fr_size fl1 < 2 ^ 32" using seek_size [of fl "Start (nat offset)"] seek by simp
  with ISOFileReader_read_inv [OF assms(2) _ read] assms True fl seek read show ?thesis
    by (cases sres) (auto simp: fuse_read_def split: if_splits)
next
  case False
  then show ?thesis using assms by (auto simp: fuse_read_def split: option.splits if_splits)
qed

lemma ISOFile_read_size: "fr_size (ISOFile_read f) < 2 ^ 32"
  using unsigned_less [of "ISOFile_size f", where 'a = nat] by (simp add: ISOFile_read_def)

text \<open>What a step keeps: the reader's state, the sizes, and the open file.\<close>

definition image_state :: "ISOFuse \<Rightarrow> 'r \<Rightarrow> bool" where
  "image_state self r \<longleftrightarrow> inv r \<and> fuse_ok self \<and>
    (\<forall>h rdr. open_files self h = Some rdr \<longrightarrow> fr_size rdr < 2 ^ 32)"

lemma fuse_handle_image:
  assumes handle: "fuse_handle B env rd req self r = (res, self', r')" and st: "image_state self r" and "req_ok req"
  shows "image_state self' r'"
proof -
  have ok: "inv r" "fuse_ok self" "\<forall>h rdr. open_files self h = Some rdr \<longrightarrow> fr_size rdr < 2 ^ 32"
    using st by (simp_all add: image_state_def)
  have "inv r' \<and> (\<forall>h rdr. open_files self' h = Some rdr \<longrightarrow> fr_size rdr < 2 ^ 32)"
  proof (cases req)
    case (Lookup parent name)
    then show ?thesis using handle ok fuse_lookup_inv fuse_lookup_ok [of B env rd self parent name r]
      by (auto simp: fuse_handle_def same_tables_def)
  next
    case (Open ino)
    then show ?thesis using handle ok ISOFile_read_size fuse_open_eq [of self ino]
      by (auto simp: fuse_handle_def split: if_splits)
  next
    case (Read fh offset size')
    then show ?thesis using handle fuse_read_inv [OF _ ok(1,3)] by (simp add: fuse_handle_def)
  next
    case (Opendir ino)
    then show ?thesis using handle ok fuse_opendir_eq [of self ino] by (auto simp: fuse_handle_def)
  next
    case (Readdir fh offset)
    then show ?thesis using handle ok assms(3) fuse_readdir_inv fuse_readdir_ok [of B env rd self fh offset r]
      by (auto simp: fuse_handle_def same_tables_def)
  qed (use handle ok in \<open>auto simp: fuse_handle_def fuse_release_def fuse_releasedir_def fuse_forget_def
    split: option.splits if_splits\<close>)
  then show ?thesis using fuse_handle_ok [OF handle ok(2)] by (simp add: image_state_def)
qed

lemma fuse_handle_file_open:
  assumes handle: "fuse_handle B env rd req self r = (res, self', r')" and st: "image_state self r"
    and "req_ok req" and fo: "file_open img f self h" and "req \<noteq> Release h"
  shows "file_open img f self' h"
proof -
  have ok: "inv r" "fuse_ok self" using st by (simp_all add: image_state_def)
  have "h \<in> dom (open_files self)" using fo by (auto simp: file_open_def)
  then have h: "h \<noteq> file_number self" using ok(2) by (auto simp: fuse_ok_def below_def)
  show ?thesis
  proof (cases "\<exists>offset size'. req = Read h offset size' \<and> 0 \<le> offset")
    case True
    then obtain offset size' where req: "req = Read h offset size'" "0 \<le> offset" by blast
    have "offset < 2 ^ 63" using assms(3) req(1) by simp
    from fuse_read_file [OF fo ok(1) req(2) this, of size'] handle req(1) show ?thesis
      by (auto simp: fuse_handle_def)
  next
    case False
    have "open_files self' h = open_files self h"
    proof (cases req)
      case (Lookup parent name)
      then show ?thesis using handle ok fuse_lookup_ok [of B env rd self parent name r]
        by (auto simp: fuse_handle_def same_tables_def)
    next
      case (Open ino)
      then show ?thesis using handle h fuse_open_eq [of self ino] by (auto simp: fuse_handle_def)
    next
      case (Read fh offset size')
      then show ?thesis using handle False fuse_read_frame [of B rd self fh offset size' r res self' r']
        by (cases "fh = h") (auto simp: fuse_handle_def fuse_read_def)
    next
      case (Opendir ino)
      then show ?thesis using handle fuse_opendir_eq [of self ino] by (auto simp: fuse_handle_def)
    next
      case (Readdir fh offset)
      then show ?thesis using handle ok fuse_readdir_ok [of B env rd self fh offset r]
        by (auto simp: fuse_handle_def same_tables_def)
    qed (use handle assms(5) in \<open>auto simp: fuse_handle_def fuse_release_def fuse_releasedir_def fuse_forget_def
      split: option.splits if_splits\<close>)
    with fo show ?thesis by (rule file_open_frame)
  qed
qed

lemma fuse_run_file_open:
  assumes "fuse_run B env rd self r trace self' r'" and "image_state self r" and "file_open img f self h"
    and "\<forall>(req, reply) \<in> set trace. req_ok req \<and> req \<noteq> Release h"
  shows "image_state self' r' \<and> file_open img f self' h"
  using assms
proof (induction rule: fuse_run.induct)
  case (run_step req self r reply self1 r1 trace self2 r2)
  then have "image_state self1 r1" "file_open img f self1 h"
    using fuse_handle_image [OF run_step.hyps(1)] fuse_handle_file_open [OF run_step.hyps(1)] by auto
  with run_step show ?case by simp
qed simp

lemma open_file_open:
  assumes "fuse_open self ino = (ReplyOpened h, self')" and "inodes self ino = Some (File f)"
    and "unat (extent_loc (file_header f)) * BLOCK_SIZE + unat (ISOFile_size f) \<le> length img"
  shows "file_open img f self' h"
proof -
  have "open_files self' h = Some (ISOFile_read f)"
    using assms(1,2) by (auto simp: fuse_open_def split: if_splits)
  moreover have "file_bytes img (ISOFile_read f) = file_contents img f"
    by (simp add: file_bytes_def file_contents_def ISOFile_read_def)
  ultimately show ?thesis using ISOFile_read_ok [OF assms(3)] by (simp add: file_open_def)
qed

end

end
