(* ===== verification/Fuse_Listing.thy ===== *)
theory Fuse_Listing
  imports Fuse_Facts
begin

text \<open>
  What \<open>readdir\<close> of the FUSE server lists: over an image, the entries of the directory's walk from
  the offset of the request on, without the relocated ones, as far as the reply has room; the offset
  of the last one is where the listing goes on.
\<close>

definition listed :: "DirectoryEntry list \<Rightarrow> DirectoryEntry list" where
  "listed es = filter (\<lambda>e. \<not> attr_relocated (entry_ext e)) es"

text \<open>An entry as the reply shows it, and the offset a reply gives for the rest.\<close>

definition shown :: "DirectoryEntry \<Rightarrow> FileType \<times> ustr" where
  "shown e = (entry_to_filetype e, entry_identifier e)"

definition resume_at :: "int \<Rightarrow> u64 option" where
  "resume_at off = (if off = - 1 then None else Some (nat off))"

definition i64_offset :: "int \<Rightarrow> bool" where
  "i64_offset off \<longleftrightarrow> - 1 \<le> off \<and> off < 2 ^ 63"

abbreviation (input) reply_offset :: "dir_reply \<Rightarrow> int" where "reply_offset d \<equiv> fst (snd d)"

lemma fuse_offset_resume: "fuse_offset nxt = Some off \<Longrightarrow> resume_at off = nxt \<and> i64_offset off"
  by (auto simp: fuse_offset_def resume_at_def i64_offset_def split: option.splits if_splits)

lemma listed_simps [simp]:
  "listed [] = []" "listed (e # es) = (if attr_relocated (entry_ext e) then listed es else e # listed es)"
  by (simp_all add: listed_def)

text \<open>There is an inode number for each of the entries.\<close>

definition inodes_left :: "ISOFuse \<Rightarrow> DirectoryEntry list \<Rightarrow> bool" where
  "inodes_left self es \<longleftrightarrow>
    (if inode_autogenerated self then inode_number self + length es < u64_MAX
     else inode_number self \<noteq> u64_MAX \<and> (\<forall>e \<in> set es. inode (entry_ext e) \<noteq> None))"

lemma inodes_left_entry:
  "inodes_left self (e # es) \<Longrightarrow> \<exists>ino. entry_inode self e = (Ret ino :: ('e, _) exec)"
  by (auto simp: inodes_left_def entry_inode_def split: if_splits)

lemma inodes_left_step [intro]:
  "inodes_left self (e # es) \<Longrightarrow> inodes_left self es"
  "inodes_left self (e # es) \<Longrightarrow> inodes_left (bump_inode self) es"
  "inodes_left self (e # es) \<Longrightarrow> inodes_left (bump_inode (self\<lparr>inodes := m\<rparr>)) es"
  by (auto simp: inodes_left_def bump_inode_def split: if_splits)

lemma inodes_left_MAX: "inodes_left self es \<Longrightarrow> inode_number self \<noteq> u64_MAX"
  by (auto simp: inodes_left_def split: if_splits)

text \<open>What one reply shows of the entries \<open>es\<close> from an offset on.\<close>

definition lists ::
    "'z susp_build_scheme \<Rightarrow> u8 list \<Rightarrow> ISODirectory \<Rightarrow> bool \<Rightarrow> DirectoryEntry list \<Rightarrow> dir_reply list \<Rightarrow> bool" where
  "lists B img dir roomy es ds \<longleftrightarrow>
    (\<exists>es1 es2. listed es = es1 @ es2
      \<and> map (\<lambda>d. snd (snd d)) ds = map shown es1
      \<and> (ds \<noteq> [] \<longrightarrow> (\<exists>rest. dir_walk B img dir (resume_at (reply_offset (last ds))) rest (Ret ())
            \<and> i64_offset (reply_offset (last ds)) \<and> listed rest = es2
            \<and> length ds + length rest \<le> length es \<and> set rest \<subseteq> set es))
      \<and> (roomy \<longrightarrow> es2 = []))"

lemma lists_none [simp]: "lists B img dir roomy es [] \<longleftrightarrow> \<not> roomy \<or> listed es = []"
  by (auto simp: lists_def)

lemma lists_relocated:
  "attr_relocated (entry_ext e) \<Longrightarrow> lists B img dir roomy es ds \<Longrightarrow> lists B img dir roomy (e # es) ds"
  unfolding lists_def listed_simps by simp (blast intro: le_SucI)

lemma lists_Cons:
  assumes "\<not> attr_relocated (entry_ext e)" and "lists B img dir roomy es ds"
    and walk: "dir_walk B img dir nxt es (Ret ())" and off: "fuse_offset nxt = Some off"
  shows "lists B img dir roomy (e # es) ((ino, off, entry_to_filetype e, entry_identifier e) # ds)"
proof -
  let ?d = "(ino, off, entry_to_filetype e, entry_identifier e)"
  from assms(2) obtain es1 es2 where ds: "listed es = es1 @ es2"
    "map (\<lambda>d. snd (snd d)) ds = map shown es1" "roomy \<longrightarrow> es2 = []"
    "ds \<noteq> [] \<longrightarrow> (\<exists>rest. dir_walk B img dir (resume_at (reply_offset (last ds))) rest (Ret ())
            \<and> i64_offset (reply_offset (last ds)) \<and> listed rest = es2
      \<and> length ds + length rest \<le> length es \<and> set rest \<subseteq> set es)"
    by (auto simp: lists_def)
  have "resume_at off = nxt" "i64_offset off" using fuse_offset_resume [OF off] by auto
  moreover have "ds = [] \<Longrightarrow> listed es = es2" using ds(1,2) by simp
  ultimately have "\<exists>rest. dir_walk B img dir (resume_at (reply_offset (last (?d # ds)))) rest (Ret ())
      \<and> i64_offset (reply_offset (last (?d # ds))) \<and> listed rest = es2
      \<and> length (?d # ds) + length rest \<le> length (e # es) \<and> set rest \<subseteq> set (e # es)"
    using ds(4) walk by (cases "ds = []") auto
  then show ?thesis
    unfolding lists_def
    by (intro exI [of _ "e # es1"] exI [of _ es2]) (use assms(1) ds in \<open>simp add: shown_def\<close>)
qed

text \<open>What listing the entries of a reply does to the server: the generated inode numbers are used up.\<close>

definition numbered :: "ISOFuse \<Rightarrow> dir_reply list \<Rightarrow> ISOFuse \<Rightarrow> bool" where
  "numbered self ds self' \<longleftrightarrow> same_tables self self'
    \<and> inode_number self' = inode_number self + (if inode_autogenerated self then length ds else 0)"

lemma numbered_Nil [simp]: "numbered self [] self"
  by (simp add: numbered_def)

lemma numbered_bump:
  "numbered self [d] (bump_inode self)" "numbered self [d] (bump_inode (self\<lparr>inodes := m\<rparr>))"
  by (simp_all add: numbered_def) (simp_all add: bump_inode_def)

lemma numbered_append: "numbered a ds b \<Longrightarrow> numbered b ds' c \<Longrightarrow> numbered a (ds @ ds') c"
  by (auto simp: numbered_def same_tables_def)

text \<open>One turn of the loop: the entry is hidden, the reply is full, or the entry is added.\<close>

definition go_on ::
    "readdir_state \<Rightarrow> u64 option \<Rightarrow> (ISOError, (reply \<times> ISOFuse) + readdir_state) exec" where
  "go_on st nxt =
    Ret (case nxt of Some off \<Rightarrow> Inr (st\<lparr>rs_offset := off\<rparr>) | None \<Rightarrow> Inl (ReplyDirectory (rs_added st), rs_self st))"

lemma readdir_entry_cases:
  assumes "inodes_left (rs_self st) (e # es)" and "\<And>off. nxt = Some off \<Longrightarrow> off < 2 ^ 63"
  obtains (hidden) "attr_relocated (entry_ext e)" "readdir_entry env st e nxt = go_on st nxt"
  | (full) "\<exists>added d. reply_add_full env added d"
      "readdir_entry env st e nxt = Ret (Inl (ReplyDirectory (rs_added st), rs_self st))"
  | (added) ino off self where "\<not> attr_relocated (entry_ext e)" "fuse_offset nxt = Some off"
      "inodes_left self es" "numbered (rs_self st) [(ino, off, entry_to_filetype e, entry_identifier e)] self"
      "readdir_entry env st e nxt =
        go_on (st\<lparr>rs_self := self, rs_added := rs_added st @ [(ino, off, entry_to_filetype e, entry_identifier e)]\<rparr>) nxt"
proof -
  obtain ino where ino: "entry_inode (rs_self st) e = (Ret ino :: (ISOError, _) exec)"
    using inodes_left_entry [OF assms(1)] by blast
  obtain off where off: "fuse_offset nxt = Some off"
    using assms(2) by (cases nxt) (auto simp: fuse_offset_def)
  let ?d = "(ino, off, entry_to_filetype e, entry_identifier e)"
  let ?self = "bump_inode (if entry_identifier e \<noteq> lit ''.'' \<and> entry_identifier e \<noteq> lit ''..''
    then (rs_self st)\<lparr>inodes := (inodes (rs_self st))(ino \<mapsto> e)\<rparr> else rs_self st)"
  consider "attr_relocated (entry_ext e)"
    | "\<not> attr_relocated (entry_ext e)" "reply_add_full env (rs_added st) ?d"
    | "\<not> attr_relocated (entry_ext e)" "\<not> reply_add_full env (rs_added st) ?d" by blast
  then show thesis
  proof cases
    case 1
    then show thesis by (intro hidden) (simp_all add: readdir_entry_def go_on_def Let_def split: option.splits)
  next
    case 2
    then have "\<exists>added d. reply_add_full env added d" by blast
    then show thesis by (rule full) (use 2 ino off in \<open>simp add: readdir_entry_def Let_def\<close>)
  next
    case 3
    moreover have "inodes_left ?self es" "numbered (rs_self st) [?d] ?self"
      using assms(1) by (auto simp: numbered_bump)
    ultimately show thesis using ino off
      by (intro added [of off ?self ino]) (simp_all add: readdir_entry_def go_on_def Let_def split: option.splits)
  qed
qed

context image_directory begin

lemma readdir_loop_step:
  assumes "inv r" and "dir_cache_ok img dir (rs_block st) (rs_block_num st)" and "rs_offset st < 2 ^ 63"
    and "inode_number (rs_self st) \<noteq> u64_MAX" and "entry_at B img dir (rs_offset st) = Ret (e, nxt)"
  shows "\<exists>block num r'. inv r' \<and> dir_cache_ok img dir block num \<and>
    readdir_loop B env rd dir st r =
      (case readdir_entry env (st\<lparr>rs_block := block, rs_block_num := num\<rparr>) e nxt of
         Ret (Inl (reply, self)) \<Rightarrow> Some (Ret reply, self, r')
       | Ret (Inr st) \<Rightarrow> readdir_loop B env rd dir st r'
       | Throw err \<Rightarrow> Some (Throw err, rs_self st, r')
       | Panic \<Rightarrow> Some (Panic, rs_self st, r')
       | Hang \<Rightarrow> Some (Hang, rs_self st, r'))"
proof -
  obtain block num r' where "inv r'" "dir_cache_ok img dir block num"
    "read_entry_at B rd dir (rs_block st) (rs_block_num st) (rs_offset st) r = (Ret (e, nxt), block, num, r')"
    using read_entry_at_image [OF assms(1-3)] assms(5) by auto
  with assms(4) show ?thesis
    by (intro exI [of _ block] exI [of _ num] exI [of _ r']) (subst readdir_loop.simps, simp)
qed

lemma readdir_loop_lists:
  assumes "dir_walk B img dir nxt es fin" and "fin = Ret ()" and "nxt = Some (rs_offset st)" and "inv r"
    and "dir_cache_ok img dir (rs_block st) (rs_block_num st)" and "rs_offset st < 2 ^ 63"
    and "inodes_left (rs_self st) es"
  shows "\<exists>ds self' r'. inv r' \<and> lists B img dir (\<forall>added d. \<not> reply_add_full env added d) es ds \<and> numbered (rs_self st) ds self'
    \<and> readdir_loop B env rd dir st r = Some (Ret (ReplyDirectory (rs_added st @ ds)), self', r')"
  using assms
proof (induction arbitrary: st r rule: dir_walk.induct)
  case (walk_step off e nxt es fin)
  let ?roomy = "\<forall>added d. \<not> reply_add_full env added d"
  have off: "rs_offset st = off" using walk_step.prems by simp
  obtain block num r1 where r1: "inv r1" "dir_cache_ok img dir block num"
    and loop: "readdir_loop B env rd dir st r =
      (case readdir_entry env (st\<lparr>rs_block := block, rs_block_num := num\<rparr>) e nxt of
         Ret (Inl (reply, self)) \<Rightarrow> Some (Ret reply, self, r1)
       | Ret (Inr st) \<Rightarrow> readdir_loop B env rd dir st r1
       | Throw err \<Rightarrow> Some (Throw err, rs_self st, r1)
       | Panic \<Rightarrow> Some (Panic, rs_self st, r1)
       | Hang \<Rightarrow> Some (Hang, rs_self st, r1))"
    using readdir_loop_step [of r dir st e nxt env] walk_step.prems walk_step.hyps(1) off
      inodes_left_MAX [of "rs_self st"] by blast
  have prog: "o' < 2 ^ 63" if "nxt = Some o'" for o'
    using entry_at_progress [of img dir off e] walk_step.hyps(1) that by fastforce
  have walk: "dir_walk B img dir nxt es (Ret ())" using walk_step.hyps(2) walk_step.prems(1) by simp
  have rest: "\<exists>ds self' r'. inv r' \<and> lists B img dir ?roomy es ds \<and> numbered (rs_self st') ds self'
      \<and> readdir_loop B env rd dir st r = Some (Ret (ReplyDirectory (rs_added st' @ ds)), self', r')"
    if go: "readdir_entry env (st\<lparr>rs_block := block, rs_block_num := num\<rparr>) e nxt = go_on st' nxt"
      and st': "rs_block st' = block" "rs_block_num st' = num" "inodes_left (rs_self st') es" for st'
  proof (cases nxt)
    case None
    then have "es = []" using walk by (auto elim: walk_NoneE)
    with None show ?thesis using loop go r1(1) by (intro exI [of _ "[]"]) (simp add: go_on_def)
  next
    case (Some o')
    then show ?thesis
      using walk_step.IH [OF walk_step.prems(1), of "st'\<lparr>rs_offset := o'\<rparr>" r1] loop go r1 prog st'
      by (simp add: go_on_def)
  qed
  let ?st = "st\<lparr>rs_block := block, rs_block_num := num\<rparr>"
  from walk_step.prems(6) have left: "inodes_left (rs_self ?st) (e # es)" by simp
  show ?case
  proof (rule readdir_entry_cases [where nxt = nxt and env = env, OF left], goal_cases offset hidden full added)
    case (offset o')
    then show ?case by (rule prog)
  next
    case hidden
    from rest [OF hidden(2)] inodes_left_step(1) [OF walk_step.prems(6)] obtain ds self' r' where
      "inv r'" "lists B img dir ?roomy es ds" "numbered (rs_self st) ds self'"
      "readdir_loop B env rd dir st r = Some (Ret (ReplyDirectory (rs_added st @ ds)), self', r')" by auto
    with lists_relocated [OF hidden(1)] show ?thesis by blast
  next
    case full
    then show ?thesis using loop r1(1) by (intro exI [of _ "[]"]) auto
  next
    case (added ino off' self)
    with rest [OF added(5)] obtain ds self' r' where ds: "inv r'" "lists B img dir ?roomy es ds"
      "numbered self ds self'"
      "readdir_loop B env rd dir st r = Some (Ret (ReplyDirectory ((rs_added st @
        [(ino, off', entry_to_filetype e, entry_identifier e)]) @ ds)), self', r')" by auto
    moreover have "numbered (rs_self st) ((ino, off', entry_to_filetype e, entry_identifier e) # ds) self'"
      using numbered_append [OF added(4) ds(3)] by simp
    ultimately show ?thesis using lists_Cons [OF added(1) ds(2) walk added(2)] by fastforce
  qed
qed auto

lemma fuse_readdir_lists:
  assumes "open_directories self fh = Some dir" and "0 \<le> offset" and "i64_offset offset"
    and "dir_walk B img dir (resume_at offset) es (Ret ())" and "inv r" and "inodes_left self es"
  shows "\<exists>ds self' r'. inv r' \<and> lists B img dir (\<forall>added d. \<not> reply_add_full env added d) es ds
    \<and> numbered self ds self' \<and> fuse_readdir B env rd self fh offset r = (Ret (ReplyDirectory ds), self', r')"
proof -
  let ?st = "\<lparr>rs_self = self, rs_block = BlockBuffer_new, rs_block_num = None, rs_offset = nat offset, rs_added = []\<rparr>"
  have "resume_at offset = Some (nat offset)" "nat offset < 2 ^ 63"
    using assms(2,3) by (auto simp: resume_at_def i64_offset_def)
  from readdir_loop_lists [OF assms(4) refl, of ?st r env] this assms(1,2,5,6) show ?thesis
    by (auto simp: fuse_readdir_def)
qed

end

section \<open>Listing a directory in pieces\<close>

text \<open>A client that lists a directory: it asks at an offset, then at the offset of the last entry of
  the reply, until an entry's offset says that there is no more.\<close>

inductive list_session ::
    "'z susp_build_scheme \<Rightarrow> fuse_env \<Rightarrow> 'r reader \<Rightarrow> u64 \<Rightarrow> ISOFuse \<Rightarrow> 'r \<Rightarrow> int \<Rightarrow> dir_reply list \<Rightarrow> bool"
  for B env rd fh where
  session_end: "list_session B env rd fh self r (- 1) []"
| session_step: "0 \<le> off \<Longrightarrow> fuse_readdir B env rd self fh off r = (Ret (ReplyDirectory ds), self1, r1) \<Longrightarrow>
    ds \<noteq> [] \<Longrightarrow> list_session B env rd fh self1 r1 (reply_offset (last ds)) rest \<Longrightarrow>
    list_session B env rd fh self r off (ds @ rest)"

lemma inodes_left_rest:
  assumes "inodes_left self es" and "numbered self ds self'" and "length ds + length rest \<le> length es"
    and "set rest \<subseteq> set es"
  shows "inodes_left self' rest"
  using assms by (auto simp: inodes_left_def numbered_def same_tables_def split: if_splits)

context image_directory begin

lemma list_session_lists:
  assumes "list_session B env rd fh self r off ds" and "open_directories self fh = Some dir"
    and "dir_walk B img dir (resume_at off) es (Ret ())" and "i64_offset off" and "inv r" and "inodes_left self es"
  shows "map (\<lambda>d. snd (snd d)) ds = map shown (listed es)"
  using assms
proof (induction arbitrary: es rule: list_session.induct)
  case (session_end self r)
  then show ?case by (auto simp: resume_at_def elim: walk_NoneE)
next
  case (session_step off self r ds self1 r1 rest)
  from fuse_readdir_lists [OF session_step.prems(1) session_step.hyps(1) session_step.prems(3,2,4,5), of env]
    session_step.hyps(2)
  have step: "inv r1" "numbered self ds self1" "lists B img dir (\<forall>added d. \<not> reply_add_full env added d) es ds"
    by auto
  from step(3) \<open>ds \<noteq> []\<close> obtain es1 es2 es' where es': "listed es = es1 @ es2"
    "map (\<lambda>d. snd (snd d)) ds = map shown es1"
    "dir_walk B img dir (resume_at (reply_offset (last ds))) es' (Ret ())"
    "i64_offset (reply_offset (last ds))" "listed es' = es2" "length ds + length es' \<le> length es" "set es' \<subseteq> set es"
    by (auto simp: lists_def)
  have "open_directories self1 fh = Some dir"
    using step(2) session_step.prems(1) by (simp add: numbered_def same_tables_def)
  from session_step.IH [OF this es'(3,4) step(1) inodes_left_rest [OF session_step.prems(5) step(2) es'(6,7)]] es'
  show ?case by simp
qed

end

end
