(* ===== verification/Fuse_Image.thy ===== *)
theory Fuse_Image
  imports Fuse_Listing
begin

text \<open>
  The FUSE server over an image: attributes, mounting, lookup and reading, and the properties of the
  server as a whole.
\<close>

context linked begin

lemma u16_from_PosixFileMode_eq:
  "u16_from_PosixFileMode B m = Ret (ucast (m AND ALL_PERMISSIONS))"
proof -
  have "m AND ALL_PERMISSIONS \<le> ALL_PERMISSIONS" by (rule word_and_le1)
  then have "unat (m AND ALL_PERMISSIONS) \<le> unat ALL_PERMISSIONS" by (simp add: word_le_nat_alt)
  then have "unat (m AND ALL_PERMISSIONS) < 65536" by (simp add: ALL_PERMISSIONS_def)
  then show ?thesis by (simp add: u16_from_PosixFileMode_def Let_def)
qed

lemma get_fileattr_eq:
  assumes "unat (extent_length (entry_header e)) + 2048 < 2 ^ 32"
  shows "(get_fileattr B env ino e :: ('e, FileAttr) exec) = Ret
    \<lparr>fa_ino = ino, fa_size = unat (extent_length (entry_header e)),
     fa_blocks = (unat (extent_length (entry_header e)) + 2047) div 2048,
     fa_atime = access_time (entry_ext e) (entry_header e), fa_mtime = modify_time (entry_ext e) (entry_header e),
     fa_ctime = attribute_change_time (entry_ext e) (entry_header e),
     fa_crtime = create_time (entry_ext e) (entry_header e), fa_kind = entry_to_filetype e,
     fa_perm = (case mode (entry_ext e) of Some m \<Rightarrow> ucast (m AND ALL_PERMISSIONS) | None \<Rightarrow> default_perm e),
     fa_nlink = 1, fa_uid = unwrap_or (owner (entry_ext e)) (geteuid env),
     fa_gid = unwrap_or (group (entry_ext e)) (getegid env), fa_rdev = 0, fa_blksize = 2048, fa_flags = 0\<rparr>"
proof -
  let ?w = "extent_length (entry_header e)"
  obtain c :: u32 where c: "block_count B \<lparr>dir_header = entry_header e, dir_identifier = [], dir_ext = entry_ext e\<rparr> =
      (Ret c :: ('e, _) exec)" "unat c = (unat ?w + 2047) div 2048"
    using block_count_ceil [of "\<lparr>dir_header = entry_header e, dir_identifier = [], dir_ext = entry_ext e\<rparr>" B] assms
    by auto
  then show ?thesis
    by (auto simp: get_fileattr_def block_count_def Let_def u16_from_PosixFileMode_eq split: option.splits)
qed

end

context image_directory begin

text \<open>Mounting leaves the reader serving the image and the tables empty but for the root.\<close>

lemma ISOFuse_new_image:
  assumes "ISOFuse_new B rd r = (Ret self, r')" and "inv r" and "length img < 2 ^ 63"
  shows "image_state self r'"
proof -
  obtain res1 r1 where new: "ISO9660_new B rd r = (res1, r1)" by fastforce
  with descriptor_loop_total [OF assms(3,2), of BlockBuffer_new 16 new_state_init] have "inv r1"
    by (auto simp: ISO9660_new_def BlockBuffer_new_def)
  from new assms(1) obtain isofs where isofs: "res1 = Ret isofs"
    by (auto simp: ISOFuse_new_def split: exec.splits)
  obtain res2 r2 where root: "inv r2" "ISO9660_root B rd isofs r1 = (res2, r2)"
    using ISO9660_root_image [OF \<open>inv r1\<close>] by blast
  from new root assms(1) isofs obtain dir where dir: "res2 = Ret dir"
    by (auto simp: ISOFuse_new_def split: exec.splits)
  obtain first it r3 where next': "inv r3" "iterator_next B rd (contents dir) r2 = (first, it, r3)"
    using iterator_next_image [OF root(1), of dir "contents dir" 0] by (auto simp: iter_ok_def contents_def)
  obtain res4 r4 where rr: "inv r4" "is_rr B rd isofs r3 = (res4, r4)"
    using is_rr_image [OF next'(1)] by blast
  have "inv r' \<and> open_files self = Map.empty"
    using assms(1) new isofs root dir next' rr by (auto simp: ISOFuse_new_def split: option.splits exec.splits)
  with ISOFuse_new_ok [OF assms(1)] show ?thesis by (simp add: image_state_def)
qed

lemma fuse_run_image:
  assumes "fuse_run B env rd self r trace self' r'" and "image_state self r"
    and "\<forall>(req, reply) \<in> set trace. req_ok req"
  shows "image_state self' r'"
  using assms by (induction rule: fuse_run.induct) (auto dest: fuse_handle_image)

lemma fuse_lookup_walk:
  assumes "inodes self parent = Some (Directory dir)" and "inode_number self \<noteq> u64_MAX"
    and "(entry_inode self e :: (ISOError, _) exec) = Ret ino" and "from_utf8 name = Some nm"
    and "dir_walk B img dir (Some 0) es fin" and "inv r"
    and "List.find (named nm) es = Some e" and "unat (extent_length (entry_header e)) + 2048 < 2 ^ 32"
  shows "\<exists>attr r'. inv r' \<and> get_fileattr B env ino e = (Ret attr :: (ISOError, _) exec)
    \<and> fuse_lookup B env rd self parent name r = (Ret (ReplyEntry attr),
        self\<lparr>inodes := (inodes self)(ino \<mapsto> e),
          inode_number := inode_number self + (if inode_autogenerated self then 1 else 0)\<rparr>, r')"
proof -
  obtain r' where "inv r'" "find_entry B rd dir nm r = (Ret (Some e), r')"
    using find_entry_walk [OF assms(5,6), of nm] assms(7) by (auto simp: find_result_def)
  then show ?thesis using assms(1-4) get_fileattr_eq [OF assms(8)]
    by (intro exI conjI) (auto simp: fuse_lookup_def bump_inode_def)
qed

end

section \<open>A mounted image\<close>

text \<open>A directory buffer with room for one entry.\<close>

definition demo_env :: fuse_env where
  "demo_env = \<lparr>geteuid = 1000, getegid = 100, reply_add_full = (\<lambda>added d. added \<noteq> [])\<rparr>"

definition demo_fuse :: ISOFuse where
  "demo_fuse =
    \<lparr>fuse_iso = demo_isofs, inodes = [1 \<mapsto> Directory (root_dir_of demo_table)], inode_number = 2,
     inode_autogenerated = True, directory_number = 0, file_number = 0,
     open_directories = Map.empty, open_files = Map.empty\<rparr>"

abbreviation (input) demo_read_at :: "cursor reader" where "demo_read_at \<equiv> blanket_read_at demo_B cursor_io"

lemma demo_image_directory: "image_directory demo_B demo_read_at (\<lambda>c. cur_data c = demo_iso) demo_iso"
  by (rule cursor_image.image_directory_axioms)

lemma demo_mount:
  "\<exists>r. cur_data r = demo_iso \<and> ISOFuse_new demo_B demo_read_at demo_iso_cursor = (Ret demo_fuse, r)"
proof -
  note i = demo_image_directory
  let ?dir = "root_dir_of demo_table"
  have iso: "iso_root demo_isofs = ?dir" "iso_sup_root demo_isofs = None" by (simp_all add: demo_isofs_def)
  obtain nxt where at: "entry_at demo_B demo_iso ?dir 0 = Ret (Directory demo_dir, nxt)"
    using demo_root_walk by (auto elim: walk_SomeE)
  have no_rr: "\<not> is_rock_ridge demo_dir" "inode (entry_ext (Directory demo_dir)) = None"
    by (simp_all add: is_rock_ridge_def demo_dir_def ExtraMeta_default_def inode_def)
  obtain r1 where r1: "cur_data r1 = demo_iso" "ISO9660_new demo_B demo_read_at demo_iso_cursor = (Ret demo_isofs, r1)"
    using demo_new by blast
  obtain r2 where r2: "cur_data r2 = demo_iso" "ISO9660_root demo_B demo_read_at demo_isofs r1 = (Ret ?dir, r2)"
    using image_directory.ISO9660_root_image [OF i r1(1), of demo_isofs] at no_rr by (auto simp: iso)
  obtain it r3 where r3: "cur_data r3 = demo_iso"
    "iterator_next demo_B demo_read_at (contents ?dir) r2 = (Some (Ret (Directory demo_dir)), it, r3)"
    using image_directory.iterator_next_image [OF i r2(1), of ?dir "contents ?dir" 0] at
    by (auto simp: image_directory.iter_ok_def [OF i] contents_def)
  obtain r4 where r4: "cur_data r4 = demo_iso" "is_rr demo_B demo_read_at demo_isofs r3 = (Ret False, r4)"
    using image_directory.is_rr_image [OF i r3(1), of demo_isofs] at no_rr by (auto simp: iso)
  show ?thesis using r1 r2 r3 r4 no_rr(2)
    by (intro exI [of _ r4]) (simp add: ISOFuse_new_def demo_fuse_def)
qed

lemma demo_lookup:
  assumes "cur_data r = demo_iso"
  shows "\<exists>attr r'. cur_data r' = demo_iso \<and> fuse_handle demo_B demo_env demo_read_at (Lookup 1 [97]) demo_fuse r =
    (Ret (ReplyEntry attr), demo_fuse\<lparr>inodes := (inodes demo_fuse)(2 \<mapsto> demo_file), inode_number := 3\<rparr>, r')"
proof -
  note demo_named
  moreover have "from_utf8 [97] = Some (lit ''a'')" by (simp add: from_utf8_def lit_def is_scalar_def)
  moreover have "unat (extent_length (entry_header demo_file)) + 2048 < 2 ^ 32"
    by (simp add: demo_file_def demo_header_def)
  moreover have "entry_inode demo_fuse demo_file = (Ret 2 :: (ISOError, _) exec)"
    by (simp add: entry_inode_def demo_fuse_def)
  ultimately show ?thesis
    using image_directory.fuse_lookup_walk [OF demo_image_directory _ _ _ _ demo_root_walk assms,
        of demo_fuse 1 demo_file 2 "[97]" "lit ''a''" demo_env]
    by (auto simp: fuse_handle_def demo_fuse_def)
qed

abbreviation (input) demo_found :: ISOFuse where
  "demo_found \<equiv> demo_fuse\<lparr>inodes := (inodes demo_fuse)(2 \<mapsto> demo_file), inode_number := 3\<rparr>"

abbreviation (input) demo_opened :: ISOFuse where
  "demo_opened \<equiv> snd (fuse_open demo_found 2)"

lemma demo_open:
  "fuse_handle demo_B demo_env demo_read_at (Open 2) demo_found r = (Ret (ReplyOpened 0), demo_opened, r)"
  "fuse_handle demo_B demo_env demo_read_at (Open 2) demo_opened r =
    (Ret (ReplyOpened 1), snd (fuse_open demo_opened 2), r)"
  by (simp_all add: fuse_handle_def fuse_open_def demo_fuse_def demo_file_def)

section \<open>Properties\<close>

text \<open>C7: the tables of the server stay in order along every run, whatever the image and whatever the
  requests: from \<open>ISOFuse::new\<close> on, all open file and directory handles and, when inode numbers are
  generated, all inode numbers in use are below the counters that give out the next ones, so a new
  handle or inode never replaces one that is in use, and no counter passes the maximum of \<open>u64\<close>.\<close>

theorem fuse_run_invariant:
  assumes "ISOFuse_new B rd r0 = (Ret self0, r)" and "fuse_run B env rd self0 r trace self r'"
  shows "fuse_ok self"
  using fuse_run_ok [OF assms(2) ISOFuse_new_ok [OF assms(1)]] .

theorem fuse_run_invariant_witness:
  "\<exists>attr r r' self0. ISOFuse_new demo_B demo_read_at demo_iso_cursor = (Ret self0, r)
    \<and> fuse_run demo_B demo_env demo_read_at self0 r [(Lookup 1 [97], ReplyEntry attr)] demo_found r'
    \<and> fuse_ok demo_found"
proof -
  obtain r where r: "cur_data r = demo_iso" "ISOFuse_new demo_B demo_read_at demo_iso_cursor = (Ret demo_fuse, r)"
    using demo_mount by blast
  obtain attr r' where "fuse_run demo_B demo_env demo_read_at demo_fuse r [(Lookup 1 [97], ReplyEntry attr)] demo_found r'"
    using demo_lookup [OF r(1)] by (metis run_done run_step)
  with fuse_run_invariant [OF r(2) this] r(2) show ?thesis by blast
qed

text \<open>C17: the file handles that \<open>open\<close> gives out along a run of the server are strictly increasing, and
  so are the directory handles of \<open>opendir\<close>: no handle is given out twice, even after its release.\<close>

theorem fuse_handles_fresh:
  assumes "ISOFuse_new B rd r0 = (Ret self0, r)" and "fuse_run B env rd self0 r trace self r'"
  shows "sorted_wrt (<) (List.map_filter opened_file trace)
    \<and> sorted_wrt (<) (List.map_filter opened_directory trace)
    \<and> (\<forall>h \<in> set (List.map_filter opened_file trace). h < file_number self)
    \<and> (\<forall>h \<in> set (List.map_filter opened_directory trace). h < directory_number self)"
proof -
  note run = fuse_run_steps_ok [OF assms(2) ISOFuse_new_ok [OF assms(1)]]
  from file_handles.handles_increase [OF run] directory_handles.handles_increase [OF run] show ?thesis by simp
qed

theorem fuse_handles_fresh_witness:
  "\<exists>attr r r'. ISOFuse_new demo_B demo_read_at demo_iso_cursor = (Ret demo_fuse, r)
    \<and> fuse_run demo_B demo_env demo_read_at demo_fuse r
        [(Lookup 1 [97], ReplyEntry attr), (Open 2, ReplyOpened 0), (Open 2, ReplyOpened 1)]
        (snd (fuse_open demo_opened 2)) r'
    \<and> sorted_wrt (<) (List.map_filter opened_file
        [(Lookup 1 [97], ReplyEntry attr), (Open 2, ReplyOpened 0), (Open 2, ReplyOpened 1)])
    \<and> 1 < file_number (snd (fuse_open demo_opened 2))"
proof -
  obtain r where r: "cur_data r = demo_iso" "ISOFuse_new demo_B demo_read_at demo_iso_cursor = (Ret demo_fuse, r)"
    using demo_mount by blast
  obtain attr r' where run: "fuse_run demo_B demo_env demo_read_at demo_fuse r
      [(Lookup 1 [97], ReplyEntry attr), (Open 2, ReplyOpened 0), (Open 2, ReplyOpened 1)]
      (snd (fuse_open demo_opened 2)) r'"
    using demo_lookup [OF r(1)] demo_open by (metis run_done run_step)
  note fresh = fuse_handles_fresh [OF r(2) run]
  then have "1 < file_number (snd (fuse_open demo_opened 2))"
    by (simp add: List.map_filter_simps opened_file_def)
  with fresh r(2) run show ?thesis by blast
qed

text \<open>C2: reading an open file gives its bytes: once the server runs over an image and \<open>open\<close> has
  returned a handle for a file of the image, every later read of that handle gives the bytes of the
  file's extent at the offset of the request, as many as the request asks for and the file has,
  whatever requests came before and come in between, as long as the handle is not released.\<close>

theorem fuse_open_read:
  assumes "linked_susp B" and "image_reader rd ok img" and "ok r0" and "length img < 2 ^ 63"
    and mount: "ISOFuse_new B rd r0 = (Ret self0, r)"
    and before: "fuse_run B env rd self0 r trace1 self1 r1"
    and f: "inodes self1 ino = Some (File f)"
      "unat (extent_loc (file_header f)) * BLOCK_SIZE + unat (ISOFile_size f) \<le> length img"
    and opened: "fuse_handle B env rd (Open ino) self1 r1 = (Ret (ReplyOpened h), self2, r2)"
    and after: "fuse_run B env rd self2 r2 trace2 self3 r3"
    and reqs: "\<forall>(req, reply) \<in> set (trace1 @ trace2). req_ok req"
      "\<forall>(req, reply) \<in> set trace2. req \<noteq> Release h" "0 \<le> offset" "offset < 2 ^ 63"
  shows "\<exists>self4 r4. fuse_handle B env rd (Read h offset size') self3 r3 =
    (Ret (ReplyData (take (unat size') (drop (nat offset) (file_contents img f)))), self4, r4)"
proof -
  have i: "image_directory B rd ok img" using assms(1,2) by (simp add: image_directory_def)
  note st0 = image_directory.ISOFuse_new_image [OF i mount assms(3,4)]
  have "\<forall>(req, reply) \<in> set trace1. req_ok req" using reqs(1) by auto
  note st1 = image_directory.fuse_run_image [OF i before st0 this]
  have st2: "image_directory.image_state ok self2 r2"
    by (rule image_directory.fuse_handle_image [OF i opened st1]) simp
  have "file_open img f self2 h"
    using opened f by (auto simp: fuse_handle_def split: prod.splits intro: image_directory.open_file_open [OF i])
  from image_directory.fuse_run_file_open [OF i after st2 this] reqs(1,2)
  have "image_directory.image_state ok self3 r3" "file_open img f self3 h" by auto
  moreover from this(1) have "ok r3" by (simp add: image_directory.image_state_def [OF i])
  ultimately show ?thesis
    using image_directory.fuse_read_file [OF i _ _ reqs(3,4)] unfolding fuse_handle_def request.case by blast
qed

lemma demo_contents: "\<exists>f. demo_file = File f \<and> file_contents demo_iso f = replicate 2048 65
    \<and> unat (extent_loc (file_header f)) * BLOCK_SIZE + unat (ISOFile_size f) \<le> length demo_iso"
  using demo_iso_block [of 19]
  by (simp add: demo_file_def file_contents_def demo_header_def ISOFile_size_def demo_iso_length demo_blocks_def
      nth_append)

theorem fuse_open_read_witness:
  "\<exists>self3 r3 self4 r4. fuse_handle demo_B demo_env demo_read_at (Read 0 1000 4) self3 r3 =
    (Ret (ReplyData (replicate 4 65)), self4, r4)"
proof -
  obtain r where r: "cur_data r = demo_iso" "ISOFuse_new demo_B demo_read_at demo_iso_cursor = (Ret demo_fuse, r)"
    using demo_mount by blast
  obtain attr r' where run: "fuse_run demo_B demo_env demo_read_at demo_fuse r [(Lookup 1 [97], ReplyEntry attr)] demo_found r'"
    using demo_lookup [OF r(1)] by (metis run_done run_step)
  obtain f where f: "demo_file = File f" "file_contents demo_iso f = replicate 2048 65"
    "unat (extent_loc (file_header f)) * BLOCK_SIZE + unat (ISOFile_size f) \<le> length demo_iso"
    using demo_contents by blast
  have "\<exists>self4 r4. fuse_handle demo_B demo_env demo_read_at (Read 0 1000 4) demo_opened r' =
      (Ret (ReplyData (take (unat (4 :: u32)) (drop (nat 1000) (file_contents demo_iso f)))), self4, r4)"
    by (rule fuse_open_read [OF demo_linked demo_iso_image _ _ r(2) run _ f(3) demo_open(1) run_done])
      (use f(1) in \<open>simp_all add: demo_iso_length demo_fuse_def\<close>)
  moreover have "take (unat (4 :: u32)) (drop (nat 1000) (replicate 2048 65)) = replicate 4 (65 :: u8)" by simp
  ultimately show ?thesis unfolding f(2) by metis
qed

text \<open>C5: listing a directory in pieces is complete: a client that calls \<open>readdir\<close> at offset 0 and then at
  the offset of the last entry of each reply, until that offset is -1, is shown every entry of the
  directory exactly once and in the order of the directory, with its type and its name, except for
  the relocated directories, wherever the replies are cut off.\<close>

theorem fuse_listing_complete:
  assumes "linked_susp B" and "image_reader rd ok img" and "ok r"
    and "open_directories self fh = Some dir" and "dir_walk B img dir (Some 0) es (Ret ())"
    and "inodes_left self es" and "list_session B env rd fh self r 0 ds"
  shows "map (\<lambda>d. snd (snd d)) ds = map shown (listed es)"
proof -
  have i: "image_directory B rd ok img" using assms(1,2) by (simp add: image_directory_def)
  have "resume_at 0 = Some 0" "i64_offset 0" by (simp_all add: resume_at_def i64_offset_def)
  then show ?thesis using image_directory.list_session_lists [OF i assms(7,4), of es] assms(3,5,6) by simp
qed

definition roomy_env :: fuse_env where
  "roomy_env = \<lparr>geteuid = 0, getegid = 0, reply_add_full = (\<lambda>added d. False)\<rparr>"

abbreviation (input) demo_listing :: ISOFuse where
  "demo_listing \<equiv> snd (fuse_opendir demo_fuse 1)"

lemma demo_listing:
  "open_directories demo_listing 0 = Some (root_dir_of demo_table)"
  "inodes_left demo_listing [Directory demo_dir, demo_file]"
  "\<not> attr_relocated (dir_ext demo_dir)" "\<not> attr_relocated (entry_ext demo_file)"
  by (simp_all add: fuse_opendir_def demo_fuse_def inodes_left_def attr_relocated_def demo_dir_def demo_file_def
      ExtraMeta_default_def)

lemma walk_nothing: "dir_walk B img dir nxt es fin \<Longrightarrow> es = [] \<Longrightarrow> fin = Ret () \<Longrightarrow> nxt = None"
  by (induction rule: dir_walk.induct) auto

lemma demo_session:
  assumes "cur_data r = demo_iso"
  shows "\<exists>ds. length ds = 2 \<and> list_session demo_B roomy_env demo_read_at 0 demo_listing r 0 ds"
proof -
  let ?es = "[Directory demo_dir, demo_file]"
  have "resume_at 0 = Some 0" "i64_offset 0" by (simp_all add: resume_at_def i64_offset_def)
  with image_directory.fuse_readdir_lists [OF demo_image_directory demo_listing(1) _ _ _ assms demo_listing(2),
      of 0 roomy_env] demo_root_walk
  obtain ds self' r' where ds: "lists demo_B demo_iso (root_dir_of demo_table) True ?es ds"
    "fuse_readdir demo_B roomy_env demo_read_at demo_listing 0 0 r = (Ret (ReplyDirectory ds), self', r')"
    by (auto simp: roomy_env_def)
  have "map (\<lambda>d. snd (snd d)) ds = map shown ?es" using ds(1) by (auto simp: lists_def demo_listing(3,4))
  then have len: "length ds = 2" by (auto dest: map_eq_imp_length_eq)
  then have "ds \<noteq> []" by auto
  with ds(1) obtain rest where rest:
    "dir_walk demo_B demo_iso (root_dir_of demo_table) (resume_at (reply_offset (last ds))) rest (Ret ())"
    "length ds + length rest \<le> length ?es" by (auto simp: lists_def)
  then have "rest = []" using len by simp
  with walk_nothing [OF rest(1)] have "reply_offset (last ds) = - 1"
    by (auto simp: resume_at_def split: if_splits)
  with session_step [OF _ ds(2) \<open>ds \<noteq> []\<close>] session_end len show ?thesis by fastforce
qed

theorem fuse_listing_complete_witness:
  "\<exists>r ds. list_session demo_B roomy_env demo_read_at 0 demo_listing r 0 ds
    \<and> map (\<lambda>d. snd (snd d)) ds = [(FileType_Directory, lit ''.''), (FileType_RegularFile, lit ''A'')]"
proof -
  obtain ds where ds: "list_session demo_B roomy_env demo_read_at 0 demo_listing demo_iso_cursor 0 ds"
    using demo_session [of demo_iso_cursor] by auto
  have "shown (Directory demo_dir) = (FileType_Directory, lit ''.'')" "shown demo_file = (FileType_RegularFile, lit ''A'')"
    by (simp_all add: shown_def demo_dir_def demo_file_def)
  with fuse_listing_complete [OF demo_linked demo_iso_image _ demo_listing(1) demo_root_walk demo_listing(2) ds]
  have "map (\<lambda>d. snd (snd d)) ds = [(FileType_Directory, lit ''.''), (FileType_RegularFile, lit ''A'')]"
    by (simp add: demo_listing(3,4))
  with ds show ?thesis by (intro exI conjI)
qed

text \<open>C16: a lookup of a name of a directory gives the first entry of that name, with the size, the number of
  2048 byte blocks and the type of that entry; the entry is kept in the inode table, nothing else
  changes in the tables, and \<open>getattr\<close> on its number repeats the attributes. Where inode numbers are
  generated the number is the next one and was not in use; where the image has its own it is the one of the
  entry, which must have one (the handler unwinds otherwise) and which replaces what the table held under
  it. The counter of the inode numbers is not at its end, the entry stands before any record of the directory
  that cannot be read, and its size is more than 2048 bytes below 4 GiB.\<close>

theorem fuse_lookup_getattr:
  assumes "linked_susp B" and "image_reader rd ok img" and "ok r" and "fuse_ok self"
    and "inode_number self \<noteq> u64_MAX"
    and "inodes self parent = Some (Directory dir)" and "from_utf8 name = Some nm"
    and "dir_walk B img dir (Some 0) es fin" and "List.find (named nm) es = Some e"
    and size: "unat (extent_length (entry_header e)) + 2048 < 2 ^ 32"
    and ino: "if inode_autogenerated self then ino = inode_number self
      else map_option unat (inode (entry_ext e)) = Some ino"
  shows "\<exists>attr self' r'. ok r' \<and> fuse_lookup B env rd self parent name r = (Ret (ReplyEntry attr), self', r')
    \<and> fa_ino attr = ino \<and> (inode_autogenerated self \<longrightarrow> inodes self ino = None)
    \<and> self' = self\<lparr>inodes := (inodes self)(ino \<mapsto> e),
        inode_number := inode_number self + (if inode_autogenerated self then 1 else 0)\<rparr>
    \<and> fuse_getattr B env self' ino = Ret (ReplyAttr attr)
    \<and> fa_size attr = unat (extent_length (entry_header e)) \<and> fa_kind attr = entry_to_filetype e
    \<and> fa_size attr \<le> 2048 * fa_blocks attr \<and> 2048 * fa_blocks attr < fa_size attr + 2048"
proof -
  have i: "image_directory B rd ok img" using assms(1,2) by (simp add: image_directory_def)
  let ?n = "unat (extent_length (entry_header e))"
  have "(entry_inode self e :: (ISOError, _) exec) = Ret ino"
    using ino by (auto simp: entry_inode_def split: if_splits)
  then obtain attr r' where a: "ok r'" "get_fileattr B env ino e = (Ret attr :: (ISOError, _) exec)"
    "fuse_lookup B env rd self parent name r = (Ret (ReplyEntry attr),
      self\<lparr>inodes := (inodes self)(ino \<mapsto> e),
        inode_number := inode_number self + (if inode_autogenerated self then 1 else 0)\<rparr>, r')"
    using image_directory.fuse_lookup_walk [OF i assms(6,5) _ assms(7,8,3,9) size] by blast
  have "linked B" using assms(1) by (simp add: linked_susp_def linked_enc_def)
  from a(2) [unfolded linked.get_fileattr_eq [OF this size]]
  have attr: "fa_ino attr = ino" "fa_size attr = ?n" "fa_blocks attr = (?n + 2047) div 2048"
    "fa_kind attr = entry_to_filetype e" by auto
  have "inode_autogenerated self \<longrightarrow> inodes self ino = None"
    using assms(4) ino by (auto simp: fuse_ok_def below_def)
  moreover have "?n \<le> 2048 * ((?n + 2047) div 2048)" "2048 * ((?n + 2047) div 2048) < ?n + 2048" by linarith+
  ultimately show ?thesis using a attr by (intro exI conjI) (auto simp: fuse_getattr_def)
qed

theorem fuse_lookup_getattr_witness:
  "\<exists>attr self' r'. fuse_lookup demo_B demo_env demo_read_at demo_fuse 1 [97] demo_iso_cursor =
      (Ret (ReplyEntry attr), self', r')
    \<and> fuse_getattr demo_B demo_env self' 2 = Ret (ReplyAttr attr) \<and> fa_size attr = 2048"
proof -
  have "fuse_ok demo_fuse" using demo_mount by (auto dest: ISOFuse_new_ok)
  moreover note demo_named
  moreover have "from_utf8 [97] = Some (lit ''a'')" by (simp add: from_utf8_def lit_def is_scalar_def)
  moreover have "unat (extent_length (entry_header demo_file)) = 2048" by (simp add: demo_file_def demo_header_def)
  ultimately show ?thesis
    using fuse_lookup_getattr [OF demo_linked demo_iso_image _ _ _ _ _ demo_root_walk,
        of demo_iso_cursor demo_fuse 1 "[97]" "lit ''a''" demo_file 2 demo_env]
    by (fastforce simp: demo_fuse_def)
qed

text \<open>C30: requests that name nothing are refused and change nothing: an inode number that is not in the
  table and a handle that is not open give \<open>EINVAL\<close>, a name below something that is not a directory
  and \<open>opendir\<close> of it \<open>ENOTDIR\<close>, and \<open>open\<close> of what is not a file \<open>EISDIR\<close>, a symbolic link included.\<close>

theorem fuse_refused:
  assumes "inodes self ino = None" and "open_files self fh = None" and "open_directories self dh = None"
    and "inodes self other = Some entry"
  shows "(\<forall>req \<in> {Lookup ino name, Getattr ino, Readlink ino, Open ino, Opendir ino, Read fh offset size',
        Release fh, Readdir dh offset, Releasedir dh}.
      fuse_handle B env rd req self r = (Ret (ReplyError EINVAL), self, r))
    \<and> ((\<nexists>d. entry = Directory d) \<longrightarrow>
        fuse_handle B env rd (Lookup other name) self r = (Ret (ReplyError ENOTDIR), self, r)
        \<and> fuse_handle B env rd (Opendir other) self r = (Ret (ReplyError ENOTDIR), self, r))
    \<and> ((\<nexists>f. entry = File f) \<longrightarrow>
        fuse_handle B env rd (Open other) self r = (Ret (ReplyError EISDIR), self, r))"
  using assms
  by (cases entry) (auto simp: fuse_handle_def fuse_lookup_def fuse_getattr_def fuse_readlink_def fuse_open_def
      fuse_opendir_def fuse_read_def fuse_release_def fuse_readdir_def fuse_releasedir_def)

theorem fuse_refused_witness:
  "fuse_handle demo_B demo_env demo_read_at (Open 1) demo_fuse demo_iso_cursor =
      (Ret (ReplyError EISDIR), demo_fuse, demo_iso_cursor)
    \<and> fuse_handle demo_B demo_env demo_read_at (Getattr 7) demo_fuse demo_iso_cursor =
      (Ret (ReplyError EINVAL), demo_fuse, demo_iso_cursor)"
proof -
  have t: "inodes demo_fuse 7 = None" "open_files demo_fuse 0 = None" "open_directories demo_fuse 0 = None"
    "inodes demo_fuse 1 = Some (Directory (root_dir_of demo_table))" by (simp_all add: demo_fuse_def)
  show ?thesis
    using fuse_refused [OF t, where B = demo_B and env = demo_env and rd = demo_read_at and r = demo_iso_cursor] by simp
qed

end
