(* ===== verification/Example_Image.thy ===== *)
theory Example_Image
  imports Example_Programs Fuse_Image File_Mode
begin

text \<open>
  What the example programs print for an image: \<open>print_file\<close> the bytes of the file, \<open>print_tree\<close> one line
  for each entry below the directory, in the order of the directories.
\<close>

section \<open>print_file\<close>

lemma take_then_drop: "take n xs @ drop (length (take n xs)) xs = xs"
  by (cases "n \<le> length xs") simp_all

lemma read_to_end_step:
  "ISOFileReader_read rd self (replicate (chunk env acc) 0) r = (Ret (length got), self', got @ rest, r') \<Longrightarrow>
    read_to_end env rd self acc r = (if got = [] then Some (Ret acc, r') else read_to_end env rd self' (acc @ got) r')"
  by (subst read_to_end.simps) simp

context image_reader begin

lemma read_to_end_bytes:
  assumes "inv r" and "reader_ok img self" and "\<And>acc. 0 < chunk env acc"
  shows "\<exists>r'. inv r' \<and> read_to_end env rd self acc r =
    Some (Ret (acc @ drop (fr_seek self) (file_bytes img self)), r')"
  using assms(1,2)
proof (induction "length (file_bytes img self) - fr_seek self" arbitrary: self acc r rule: less_induct)
  case less
  let ?n = "chunk env acc" and ?F = "file_bytes img self"
  let ?got = "take ?n (drop (fr_seek self) ?F)"
  obtain self' r' where read: "inv r'" "reader_ok img self'"
    "fc_read ?n (fc_abs img self) = (?got, fc_abs img self')"
    "ISOFileReader_read rd self (replicate ?n 0) r =
      (Ret (length ?got), self', ?got @ drop (length ?got) (replicate ?n 0), r')"
    using read_refines [OF less.prems, of "replicate ?n 0"] by (fastforce simp: Let_def simp del: length_take length_drop)
  from read(3) have self': "file_bytes img self' = ?F" "fr_seek self' = fr_seek self + length ?got"
    by (auto simp: fc_read_def fc_abs_def)
  show ?case
  proof (cases "?got = []")
    case True
    then have "drop (fr_seek self) ?F = []" using assms(3) [of acc] by auto
    with True read(1) read_to_end_step [OF read(4)] show ?thesis by (simp del: take_eq_Nil)
  next
    case False
    then have "length (file_bytes img self') - fr_seek self' < length ?F - fr_seek self"
      using assms(3) [of acc] by (auto simp: self')
    from less.hyps [OF this read(1,2), of "acc @ ?got"] obtain r2 where
      "inv r2" "read_to_end env rd self' (acc @ ?got) r' = Some (Ret (acc @ ?got @ drop (fr_seek self') ?F), r2)"
      by (auto simp: self'(1))
    moreover have "?got @ drop (fr_seek self') ?F = drop (fr_seek self) ?F"
      using take_then_drop [of ?n "drop (fr_seek self) ?F"]
      by (simp add: self'(2) add.commute del: length_take length_drop)
    moreover have "read_to_end env rd self acc r = read_to_end env rd self' (acc @ ?got) r'"
      using False by (simp only: read_to_end_step [OF read(4)] if_False)
    ultimately show ?thesis by simp
  qed
qed

end

context image_directory begin

lemma ISO9660_new_image:
  assumes "ISO9660_new B rd r = (res, r')" and "inv r" and "length img < 2 ^ 63"
  shows "inv r'"
  using descriptor_loop_total [OF assms(3,2), of BlockBuffer_new 16 new_state_init] assms(1)
  by (auto simp: ISO9660_new_def BlockBuffer_new_def)

lemma ISO9660_open_resolves:
  assumes "ISO9660_root B rd isofs r = (Ret root, r0)" and "inv r"
    and "resolves B img (Directory root) (path_segments path) res"
  shows "\<exists>r'. inv r' \<and> ISO9660_open B rd isofs path r = (res, r')"
proof -
  have "inv r0" using ISO9660_root_image [OF assms(2), of isofs] assms(1) by auto
  from find_segments_resolves [OF assms(3) this] assms(1) show ?thesis
    by (auto simp: ISO9660_open_def find_recursive_def)
qed

lemma print_file_resolves:
  assumes "ISO9660_new B rd r = (Ret isofs, r1)" and "ISO9660_root B rd isofs r1 = (Ret root, r2)"
    and "inv r" and "length img < 2 ^ 63" and "from_utf8 file_path = Some path"
    and "resolves B img (Directory root) (path_segments path) res"
    and chunks: "\<And>acc. 0 < chunk env acc"
    and extent: "\<And>f. res = Ret (Some (File f)) \<Longrightarrow>
      unat (extent_loc (file_header f)) * BLOCK_SIZE + unat (ISOFile_size f) \<le> length img"
  shows "fst (print_file B env rd file_path r) =
    (case res of
       Ret (Some (File f)) \<Rightarrow> Ret (file_contents img f)
     | Ret (Some _) \<Rightarrow> Throw (NotAFile path)
     | Ret None \<Rightarrow> Throw (DoesNotExist path)
     | Hang \<Rightarrow> Hang
     | _ \<Rightarrow> Panic)"
proof -
  note r1 = ISO9660_new_image [OF assms(1,3,4)]
  obtain r3 where r3: "inv r3" "ISO9660_open B rd isofs path r1 = (res, r3)"
    using ISO9660_open_resolves [OF assms(2) r1 assms(6)] by blast
  have whole: "\<exists>r'. read_to_end env rd (ISOFile_read f) [] r3 = Some (Ret (file_contents img f), r')"
    if "res = Ret (Some (File f))" for f
    using read_to_end_bytes [OF r3(1) ISOFile_read_ok [OF extent [OF that]] chunks, of "[]"]
    by (auto simp: file_contents_def file_bytes_def ISOFile_read_def)
  show ?thesis
    using assms(1,5) r3(2) whole
    by (auto simp: print_file_def split: exec.splits option.splits DirectoryEntry.splits)
qed

end

section \<open>print_tree\<close>

text \<open>The text of a mode with a file type, and the line of an entry.\<close>

definition mode_text :: "u32 \<Rightarrow> string option" where
  "mode_text w =
    (case type_letter w of
       Some c \<Rightarrow> Some (c # triad (bit w 8) (bit w 7) (bit w 6) (bit w 11)
         @ triad (bit w 5) (bit w 4) (bit w 3) (bit w 10) @ triad (bit w 2) (bit w 1) (bit w 0) False)
     | None \<Rightarrow> None)"

definition shown_name :: "DirectoryEntry \<Rightarrow> ustr" where
  "shown_name e =
    (case e of
       Directory d \<Rightarrow> dir_identifier d @ lit ''/''
     | File f \<Rightarrow> file_identifier f
     | Symlink l \<Rightarrow> sym_identifier l @ [32, 8594, 32] @ shown_target (Symlink_target l))"

definition shown_time :: "ISODirectory \<Rightarrow> DirectoryEntry \<Rightarrow> OffsetDateTime" where
  "shown_time dir e =
    (case e of
       Symlink l \<Rightarrow> modify_time (dir_ext dir) (dir_header dir)
     | _ \<Rightarrow> modify_time (entry_ext e) (entry_header e))"

definition entry_line :: "example_env \<Rightarrow> ISODirectory \<Rightarrow> nat \<Rightarrow> DirectoryEntry \<Rightarrow> ustr option" where
  "entry_line env dir level e =
    Option.bind (case mode (entry_ext e) of
        None \<Rightarrow> Some []
      | Some m \<Rightarrow> map_option (\<lambda>s. lit s @ [32]) (mode_text m)) (\<lambda>m.
    Option.bind (format_time env (shown_time dir e)) (\<lambda>t.
    Some (m @ [32] @ t @ [32] @ indent level @ shown_name e @ [10])))"

text \<open>The text for the entries \<open>es\<close> of a directory: no line for the directory itself and its parent, a line
  for each other entry, and after the line of a directory the text for its entries.\<close>

inductive tree_text ::
    "'z susp_build_scheme \<Rightarrow> example_env \<Rightarrow> u8 list \<Rightarrow> ISODirectory \<Rightarrow> nat \<Rightarrow> DirectoryEntry list \<Rightarrow> ustr \<Rightarrow> bool"
  for B env img where
  tree_nil: "tree_text B env img dir level [] []"
| tree_dots: "is_dots e \<Longrightarrow> tree_text B env img dir level es out \<Longrightarrow> tree_text B env img dir level (e # es) out"
| tree_leaf: "(\<And>sub. e \<noteq> Directory sub) \<Longrightarrow> entry_line env dir level e = Some l \<Longrightarrow>
    tree_text B env img dir level es out \<Longrightarrow> tree_text B env img dir level (e # es) (l @ out)"
| tree_sub: "\<not> is_dots (Directory sub) \<Longrightarrow> entry_line env dir level (Directory sub) = Some l \<Longrightarrow>
    dir_walk B img sub (Some 0) inside (Ret ()) \<Longrightarrow> tree_text B env img sub (level + 1) inside deeper \<Longrightarrow>
    tree_text B env img dir level es out \<Longrightarrow>
    tree_text B env img dir level (Directory sub # es) (l @ deeper @ out)"

context linked begin

lemma print_line_entry:
  assumes "entry_line env dir level e = Some l"
  shows "print_entry B env dir level e out = (Ret (), out @ l)"
proof -
  from assms obtain t m where t: "format_time env (shown_time dir e) = Some t"
    and m: "(case mode (entry_ext e) of None \<Rightarrow> Some [] | Some w \<Rightarrow> map_option (\<lambda>s. lit s @ [32]) (mode_text w)) = Some m"
    and l: "l = m @ [32] @ t @ [32] @ indent level @ shown_name e @ [10]"
    by (auto simp: entry_line_def bind_eq_Some_conv)
  have "lit '' '' = [32]" by (simp add: lit_def)
  moreover have "PosixFileMode_fmt B w = (Ret s :: (example_error, _) exec)" if "mode_text w = Some s" for w s
    using that fmt_bits [OF linked_axioms, of w] by (auto simp: mode_text_def split: option.splits)
  ultimately show ?thesis using t m unfolding l
    by (cases e) (auto simp: print_entry_def print_line_def shown_name_def shown_time_def split: option.splits)
qed

end

context image_directory begin

lemma iterator_next_walk:
  assumes "dir_walk B img dir (next_offset it) (e # es) fin" and "inv r" and "iter_ok dir it"
  shows "\<exists>it' r'. inv r' \<and> iterator_next B rd it r = (Some (Ret e), it', r') \<and> iter_ok dir it'
    \<and> dir_walk B img dir (next_offset it') es fin"
proof -
  from assms(1) obtain off nxt where off: "next_offset it = Some off" "entry_at B img dir off = Ret (e, nxt)"
    "dir_walk B img dir nxt es fin" by (cases "next_offset it") (auto elim: walk_NoneE walk_SomeE)
  from iterator_next_image [OF assms(2,3) off(1)] off(2,3) show ?thesis by auto
qed

lemma print_tree_loop_text:
  assumes "tree_text B env img dir level es out" and "dir_walk B img dir (next_offset it) es (Ret ())"
    and "inv r" and "iter_ok dir it"
  shows "\<exists>r'. inv r' \<and> print_tree_loop B env rd dir level it acc r = Some (Ret (), acc @ out, r')"
  using assms
proof (induction arbitrary: it acc r rule: tree_text.induct)
  case (tree_nil dir level)
  have "next_offset it = None" using tree_nil walk_nothing by blast
  then show ?case using tree_nil by (subst print_tree_loop.simps) (simp add: iterator_next_def)
next
  case (tree_dots e dir level es out)
  obtain it' r' where next': "inv r'" "iterator_next B rd it r = (Some (Ret e), it', r')" "iter_ok dir it'"
    "dir_walk B img dir (next_offset it') es (Ret ())"
    using iterator_next_walk [OF tree_dots.prems] by blast
  with tree_dots.IH [OF next'(4,1,3), of acc] tree_dots.hyps(1) show ?case
    by (subst print_tree_loop.simps) simp
next
  case (tree_leaf e dir level l es out)
  obtain it' r' where next': "inv r'" "iterator_next B rd it r = (Some (Ret e), it', r')" "iter_ok dir it'"
    "dir_walk B img dir (next_offset it') es (Ret ())"
    using iterator_next_walk [OF tree_leaf.prems] by blast
  from tree_leaf.IH [OF next'(4,1,3), of "acc @ l"] next'(2) tree_leaf.hyps(1) print_line_entry [OF tree_leaf.hyps(2)]
  show ?case by (subst print_tree_loop.simps) (cases e; auto simp: is_dots_def)
next
  case (tree_sub sub dir level l inside deeper es out)
  obtain it' r' where next': "inv r'" "iterator_next B rd it r = (Some (Ret (Directory sub)), it', r')" "iter_ok dir it'"
    "dir_walk B img dir (next_offset it') es (Ret ())"
    using iterator_next_walk [OF tree_sub.prems] by blast
  obtain r2 where r2: "inv r2"
    "print_tree_loop B env rd sub (level + 1) (contents sub) (acc @ l) r' = Some (Ret (), acc @ l @ deeper, r2)"
    using tree_sub.IH(1) [OF _ next'(1), of "contents sub" "acc @ l"] tree_sub.hyps(3)
    by (auto simp: contents_def iter_ok_def)
  from tree_sub.IH(2) [OF next'(4) r2(1) next'(3), of "acc @ l @ deeper"] next'(2) r2(2) tree_sub.hyps(1)
    print_line_entry [OF tree_sub.hyps(2)]
  show ?case by (subst print_tree_loop.simps) simp
qed

end

text \<open>Directories that lead back to themselves are printed for ever: where each directory of a set \<open>S\<close> has a
  subdirectory in \<open>S\<close> right after the entries for itself and its parent, none of them is printed to
  the end.\<close>

definition heads_for ::
    "'z susp_build_scheme \<Rightarrow> example_env \<Rightarrow> u8 list \<Rightarrow> ISODirectory set \<Rightarrow> ISODirectory \<Rightarrow> u64 option \<Rightarrow> bool" where
  "heads_for B env img S dir nxt \<longleftrightarrow> (\<exists>dots sub es fin. dir_walk B img dir nxt (dots @ Directory sub # es) fin
    \<and> list_all is_dots dots \<and> \<not> is_dots (Directory sub) \<and> sub \<in> S
    \<and> (\<forall>level. \<exists>l. entry_line env dir level (Directory sub) = Some l))"

context image_directory begin

lemma print_tree_loop_cycle:
  assumes cycle: "\<And>dir. dir \<in> S \<Longrightarrow> heads_for B env img S dir (Some 0)"
    and "dir \<in> S" and "inv r"
  shows "print_tree_loop B env rd dir level (contents dir) out r = None"
proof (rule ccontr)
  have start: "iter_ok dir (contents dir)" "next_offset (contents dir) = Some 0" for dir
    by (simp_all add: contents_def iter_ok_def)
  have "B' = B \<longrightarrow> env' = env \<longrightarrow> rd' = rd \<longrightarrow> heads_for B env img S dir (next_offset it) \<longrightarrow> inv r \<longrightarrow> iter_ok dir it \<longrightarrow> False"
    if "print_tree_loop B' env' rd' dir level it out r = Some y" for B' env' rd' dir level it out r y
    using _ that
  proof (rule print_tree_loop.raw_induct, intro impI, goal_cases step)
    case (step loop B' env' rd' dir level it out r y)
    note IH = step(1) [rule_format] and body = step(2) [unfolded step(5-7)]
    from step(8) obtain dots sub es fin where walk: "dir_walk B img dir (next_offset it) (dots @ Directory sub # es) fin"
      and dots: "list_all is_dots dots" and sub: "\<not> is_dots (Directory sub)" "sub \<in> S"
      and line: "\<forall>level. \<exists>l. entry_line env dir level (Directory sub) = Some l" unfolding heads_for_def by blast
    show False
    proof (cases dots)
      case Nil
      with iterator_next_walk [OF _ step(9,10)] walk obtain it' r' where "inv r'"
        "iterator_next B rd it r = (Some (Ret (Directory sub)), it', r')" by fastforce
      moreover obtain l where "print_entry B env dir level (Directory sub) out = (Ret (), out @ l)"
        using line print_line_entry by blast
      ultimately have "loop B env rd sub (level + 1) (contents sub) (out @ l) r' \<noteq> None"
        using body sub(1) by (auto simp: bind_eq_Some_conv)
      with IH [OF _ refl refl refl _ \<open>inv r'\<close> start(1)] cycle [OF sub(2)] show False by (auto simp: start(2))
    next
      case (Cons d ds)
      with iterator_next_walk [OF _ step(9,10)] walk obtain it' r' where next': "inv r'" "iter_ok dir it'"
        "iterator_next B rd it r = (Some (Ret d), it', r')"
        "dir_walk B img dir (next_offset it') (ds @ Directory sub # es) fin" by fastforce
      with body dots Cons have "loop B env rd dir level it' out r' = Some y" by simp
      moreover have "heads_for B env img S dir (next_offset it')"
        unfolding heads_for_def using next'(4) dots Cons sub line
        by (intro exI [of _ ds] exI [of _ sub] exI [of _ es] exI [of _ fin]) simp
      ultimately show False using IH [OF _ refl refl refl _ next'(1,2)] by blast
    qed
  qed
  moreover assume "print_tree_loop B env rd dir level (contents dir) out r \<noteq> None"
  ultimately show False using cycle [OF assms(2)] assms(3) start by fastforce
qed

lemma print_tree_cycle:
  assumes "\<And>dir. dir \<in> S \<Longrightarrow> heads_for B env img S dir (Some 0)" and "dir \<in> S" and "inv r"
  shows "fst (print_tree B env rd dir level out r) = Hang"
  by (simp add: print_tree_def print_tree_loop_cycle [OF assms])

end

section \<open>Properties\<close>

text \<open>C31: \<open>print_file\<close> prints the file: run on an image and the path of a file in it, it ends and writes the
  bytes of the file's extent, no more and no less, however much \<open>read_to_end\<close> asks for at a time; the
  path of something else and a path that leads nowhere are reported as such, and a directory on the
  way that cannot be read makes it unwind.\<close>

theorem print_file_output:
  assumes "linked_susp B" and "image_reader rd ok img" and "ok r" and "length img < 2 ^ 63"
    and "ISO9660_new B rd r = (Ret isofs, r1)" and "ISO9660_root B rd isofs r1 = (Ret root, r2)"
    and "from_utf8 file_path = Some path" and "resolves B img (Directory root) (path_segments path) res"
    and chunks: "\<forall>acc. 0 < chunk env acc"
    and extent: "\<forall>f. res = Ret (Some (File f)) \<longrightarrow>
      unat (extent_loc (file_header f)) * BLOCK_SIZE + unat (ISOFile_size f) \<le> length img"
  shows "fst (print_file B env rd file_path r) =
    (case res of
       Ret (Some (File f)) \<Rightarrow> Ret (file_contents img f)
     | Ret (Some _) \<Rightarrow> Throw (NotAFile path)
     | Ret None \<Rightarrow> Throw (DoesNotExist path)
     | Hang \<Rightarrow> Hang
     | _ \<Rightarrow> Panic)"
proof -
  have i: "image_directory B rd ok img" using assms(1,2) by (simp add: image_directory_def)
  show ?thesis
    by (rule image_directory.print_file_resolves [OF i assms(5,6,3,4,7,8)]) (use chunks extent in auto)
qed

definition demo_example :: example_env where
  "demo_example =
    \<lparr>chunk = (\<lambda>text. 32), interrupted = (\<lambda>e. False), format_time = (\<lambda>t. Some (lit ''Jan 01 2000 12:00''))\<rparr>"

lemma demo_iso_open:
  "\<exists>r1 r2. ISO9660_new demo_B demo_read_at demo_iso_cursor = (Ret demo_isofs, r1)
    \<and> ISO9660_root demo_B demo_read_at demo_isofs r1 = (Ret (root_dir_of demo_table), r2)"
proof -
  obtain r1 where r1: "cur_data r1 = demo_iso" "ISO9660_new demo_B demo_read_at demo_iso_cursor = (Ret demo_isofs, r1)"
    using demo_new by blast
  obtain nxt where "entry_at demo_B demo_iso (root_dir_of demo_table) 0 = Ret (Directory demo_dir, nxt)"
    using demo_root_walk by (auto elim: walk_SomeE)
  moreover have "\<not> is_rock_ridge demo_dir" by (simp add: is_rock_ridge_def demo_dir_def ExtraMeta_default_def)
  ultimately show ?thesis
    using image_directory.ISO9660_root_image [OF demo_image_directory r1(1), of demo_isofs] r1(2)
    by (auto simp: demo_isofs_def)
qed

theorem print_file_output_witness:
  "fst (print_file demo_B demo_example demo_read_at [47, 97] demo_iso_cursor) = Ret (replicate 2048 65)"
proof -
  obtain r1 r2 where iso: "ISO9660_new demo_B demo_read_at demo_iso_cursor = (Ret demo_isofs, r1)"
    "ISO9660_root demo_B demo_read_at demo_isofs r1 = (Ret (root_dir_of demo_table), r2)"
    using demo_iso_open by blast
  obtain f where f: "demo_file = File f" "file_contents demo_iso f = replicate 2048 65"
    "unat (extent_loc (file_header f)) * BLOCK_SIZE + unat (ISOFile_size f) \<le> length demo_iso"
    using demo_contents by blast
  have path: "from_utf8 [47, 97] = Some (lit ''/a'')" "path_segments (lit ''/a'') = [lit ''a'']"
    by (simp_all add: from_utf8_def lit_def is_scalar_def path_segments_def)
  have "find_result (lit ''a'') [Directory demo_dir, demo_file] (Ret ()) = Ret (Some (File f))"
    by (simp only: find_result_def demo_named option.case) (rule arg_cong [OF f(1)])
  from descend [OF demo_root_walk this here]
  have "resolves demo_B demo_iso (Directory (root_dir_of demo_table)) (path_segments (lit ''/a'')) (Ret (Some (File f)))"
    by (simp only: path)
  from print_file_output [OF demo_linked demo_iso_image _ _ iso path(1) this, of demo_example] f(3)
  show ?thesis by (simp add: demo_iso_length demo_example_def f(2))
qed

text \<open>C32: \<open>print_tree\<close> prints the tree: where the directories below the chosen one (the root, or the one the
  path leads to) can be walked and form a tree, the program ends and has printed a line for every
  entry except a directory itself and its parent, the lines for the entries of a directory right
  after its own and indented by two more spaces.\<close>

theorem print_tree_output:
  assumes "linked_susp B" and "image_reader rd ok img" and "ok r" and "length img < 2 ^ 63"
    and "ISO9660_new B rd r = (Ret isofs, r1)" and "ISO9660_root B rd isofs r1 = (Ret root, r2)"
    and arg: "dir_path = None \<and> dir = root \<or> (\<exists>bytes path. dir_path = Some bytes \<and> from_utf8 bytes = Some path
      \<and> resolves B img (Directory root) (path_segments path) (Ret (Some (Directory dir))))"
    and "dir_walk B img dir (Some 0) es (Ret ())" and "tree_text B env img dir 0 es out"
  shows "\<exists>r'. print_tree_main B env rd dir_path r = (Ret (), out, r')"
proof -
  have i: "image_directory B rd ok img" using assms(1,2) by (simp add: image_directory_def)
  note r1 = image_directory.ISO9660_new_image [OF i assms(5,3,4)]
  have printed: "\<exists>r'. print_tree B env rd dir 0 [] r3 = (Ret (), out, r')" if "ok r3" for r3
    using image_directory.print_tree_loop_text [OF i assms(9), of "contents dir" r3 "[]"] assms(8) that
    by (auto simp: print_tree_def contents_def image_directory.iter_ok_def [OF i])
  from arg show ?thesis
  proof (elim disjE exE conjE)
    assume "dir_path = None" "dir = root"
    moreover have "ok r2" using image_directory.ISO9660_root_image [OF i r1, of isofs] assms(6) by auto
    ultimately show ?thesis using assms(5,6) printed by (simp add: print_tree_main_def)
  next
    fix bytes path
    assume "dir_path = Some bytes" "from_utf8 bytes = Some path"
      and res: "resolves B img (Directory root) (path_segments path) (Ret (Some (Directory dir)))"
    moreover obtain r3 where "ok r3" "ISO9660_open B rd isofs path r1 = (Ret (Some (Directory dir)), r3)"
      using image_directory.ISO9660_open_resolves [OF i assms(6) r1 res] by blast
    ultimately show ?thesis using assms(5) printed by (simp add: print_tree_main_def)
  qed
qed

theorem print_tree_output_witness:
  "\<exists>r'. print_tree_main demo_B demo_example demo_read_at None demo_iso_cursor =
    (Ret (), lit '' Jan 01 2000 12:00 A'' @ [10], r')"
proof -
  obtain r1 r2 where iso: "ISO9660_new demo_B demo_read_at demo_iso_cursor = (Ret demo_isofs, r1)"
    "ISO9660_root demo_B demo_read_at demo_isofs r1 = (Ret (root_dir_of demo_table), r2)"
    using demo_iso_open by blast
  let ?l = "lit '' Jan 01 2000 12:00 A'' @ [10]"
  have "is_dots (Directory demo_dir)" by (simp add: is_dots_def demo_dir_def)
  moreover have "entry_line demo_example (root_dir_of demo_table) 0 demo_file = Some ?l"
    by (simp add: entry_line_def demo_file_def demo_example_def mode_def ExtraMeta_default_def shown_name_def indent_def lit_def)
  moreover have "demo_file \<noteq> Directory d" for d by (simp add: demo_file_def)
  ultimately have "tree_text demo_B demo_example demo_iso (root_dir_of demo_table) 0 [Directory demo_dir, demo_file] (?l @ [])"
    by (intro tree_dots tree_leaf tree_nil)
  from print_tree_output [OF demo_linked demo_iso_image _ _ iso _ demo_root_walk this, of None] show ?thesis
    by (simp add: demo_iso_length)
qed

end
