(* ===== verification/Parse_Properties.thy ===== *)
theory Parse_Properties
  imports Iso9660 File_Mode
begin

text \<open>
  The properties of the parsers: what is recorded is read back, how much of the input is consumed,
  which inputs are refused and which unwind. The witnesses use the build with
  assertions, little endian integers and overflow checks.
\<close>

abbreviation (input) plain_B :: susp_build where "plain_B \<equiv> std_susp_build True False True"

lemmas plain_linked = std_susp.linked_susp_axioms [where asserts = True and big = False and checks = True]
lemmas plain_crates = std_susp.linked_axioms [where asserts = True and big = False and checks = True]

section \<open>Integers and dates\<close>

lemma le_nat_word:
  "of_nat (le_nat (le_bytes 4 (unat w))) = (w :: u32)" "of_nat (le_nat (le_bytes 2 (unat v))) = (v :: u16)"
  using unsigned_less [of w, where 'a = nat] unsigned_less [of v, where 'a = nat]
  by (simp_all add: le_nat_le_bytes)

lemma le_bytes_4: "le_bytes 4 x = [of_nat x, of_nat (x div 256), of_nat (x div 256 div 256), of_nat (x div 256 div 256 div 256)]"
proof -
  have four: "(4 :: nat) = Suc (Suc (Suc (Suc 0)))" by simp
  show ?thesis unfolding four by simp
qed

text \<open>C34: an integer recorded twice is read back, and where the two copies differ the decoder gives the
  little endian one, or the big endian one in a build with the \<open>big-endian\<close> feature; it takes eight
  bytes for a \<open>u32\<close> and four for a \<open>u16\<close>.\<close>

theorem both_endian_copies:
  assumes "linked B"
  shows "both_endian32 B (le_bytes 4 (unat a) @ rev (le_bytes 4 (unat b)) @ r) = Ret (r, if big_endian B then b else a)
    \<and> both_endian16 B (le_bytes 2 (unat c) @ rev (le_bytes 2 (unat d)) @ r) = Ret (r, if big_endian B then d else c)"
  by (simp add: linked.both_endian32_eq [OF assms] linked.both_endian16_eq [OF assms] le_nat_word)

theorem both_endian_copies_witness:
  "both_endian32 plain_B [1, 2, 0, 0, 0, 0, 3, 4, 9] = Ret ([9], 0x201)"
proof -
  have bytes: "le_bytes 4 (unat (0x201 :: u32)) @ rev (le_bytes 4 (unat (0x304 :: u32))) @ [9] =
      [1, 2, 0, 0, 0, 0, 3, 4, 9]"
    by (simp add: le_bytes_4)
  have big: "big_endian plain_B = False"
    by (simp add: std_susp_build_def std_enc_build_def std_build_def build.defs enc_build.defs)
  show ?thesis
    using both_endian_copies [OF plain_crates, of "0x201" "0x304" "[9]", THEN conjunct1]
    unfolding bytes big by (simp only: if_False)
qed

text \<open>C35: a recording date never fails: seven bytes, whatever they are, give a date, a time and an offset, and
  fewer are an error. A month that is none counts as January; a day that the month of the year 1900 + y
  does not have gives the first of January of the year 0; a time of day that does not exist gives midnight;
  the last byte, read as an unsigned number of quarters of an hour, gives no offset from 104 on (from 96 to
  103 that depends on the release of the \<open>time\<close> crate). A date that the format can record is read back, but for
  the offset if it is west of Greenwich, which ECMA-119 9.1.5 records as a negative number and which is lost.\<close>

theorem date_time_recorded:
  assumes "linked B"
  shows "(length i < 7 \<longrightarrow> date_time B i = Throw (NomError Eof))
    \<and> (\<exists>off. date_time B (y # m # d # h # mi # s # z # r) =
        Ret (r, \<lparr>odt_date =
            (let year = 1900 + int (unat y); month = (if 1 \<le> unat m \<and> unat m \<le> 12 then unat m else 1) in
             if 1 \<le> unat d \<and> unat d \<le> days_in_month year month
             then \<lparr>date_year = year, date_month = month, date_day = unat d\<rparr>
             else \<lparr>date_year = 0, date_month = 1, date_day = 1\<rparr>),
          odt_time =
            (if unat h < 24 \<and> unat mi < 60 \<and> unat s < 60
             then \<lparr>time_hour = unat h, time_minute = unat mi, time_second = unat s, time_milli = 0\<rparr>
             else midnight),
          odt_offset = off\<rparr>)
        \<and> (unat z \<le> 95 \<longrightarrow> off = 900 * int (unat z)) \<and> (104 \<le> unat z \<longrightarrow> off = 0)
        \<and> off \<in> {0, 900 * int (unat z)})
    \<and> (date_ok t \<longrightarrow> date_time B (enc_date t @ r) = Ret (r, read_date t))"
proof -
  obtain bound where bound: "86399 \<le> bound" "bound \<le> 93599"
    "from_whole_seconds B = (\<lambda>s. if \<bar>s\<bar> \<le> bound then Some s else None)"
    using linked.from_whole_seconds [OF assms] by (auto simp: offset_spec_def)
  have "int (unat y) < 256" using unat_u8 [of y] by linarith
  then have y: "uint y \<le> 8099" by simp
  have date: "decode_date y m d =
      (let year = 1900 + int (unat y); month = (if 1 \<le> unat m \<and> unat m \<le> 12 then unat m else 1) in
       if 1 \<le> unat d \<and> unat d \<le> days_in_month year month
       then \<lparr>date_year = year, date_month = month, date_day = unat d\<rparr>
       else \<lparr>date_year = 0, date_month = 1, date_day = 1\<rparr>)"
    using y by (simp add: decode_date_def calendar_spec_def Let_def)
  have time: "decode_time h mi s = (if unat h < 24 \<and> unat mi < 60 \<and> unat s < 60
      then \<lparr>time_hour = unat h, time_minute = unat mi, time_second = unat s, time_milli = 0\<rparr> else midnight)"
    by (simp add: decode_time_def hms_spec_def midnight_def)
  have small: "unat z \<le> 95 \<Longrightarrow> 900 * int (unat z) \<le> 86399" and big: "104 \<le> unat z \<Longrightarrow> 93599 < 900 * int (unat z)"
    by linarith+
  have offset: "(unat z \<le> 95 \<longrightarrow> decode_offset B z = 900 * int (unat z)) \<and> (104 \<le> unat z \<longrightarrow> decode_offset B z = 0)
      \<and> decode_offset B z \<in> {0, 900 * int (unat z)}"
    using bound small big by (auto simp: decode_offset_def)
  have short: "length i < 7 \<Longrightarrow> date_time B i = Throw (NomError Eof)"
    by (rule linked.date_time_short [OF assms])
  show ?thesis
    using linked.date_time_Cons [OF assms, of y m d h mi s z r] linked.date_time_enc [OF assms] offset short
    unfolding date time by blast
qed

theorem date_time_recorded_witness:
  "date_time plain_B [124, 2, 29, 12, 30, 0, 236, 7] =
    Ret ([7], \<lparr>odt_date = \<lparr>date_year = 2024, date_month = 2, date_day = 29\<rparr>,
      odt_time = \<lparr>time_hour = 12, time_minute = 30, time_second = 0, time_milli = 0\<rparr>, odt_offset = 0\<rparr>)"
proof -
  let ?t = "\<lparr>odt_date = \<lparr>date_year = 2024, date_month = 2, date_day = 29\<rparr>,
    odt_time = \<lparr>time_hour = 12, time_minute = 30, time_second = 0, time_milli = 0\<rparr>, odt_offset = -18000\<rparr>"
  have "date_ok ?t" by (simp add: date_ok_def days_in_month_def leap_year_def)
  moreover have "enc_date ?t = [124, 2, 29, 12, 30, 0, 236]" by (simp add: enc_date_def)
  ultimately show ?thesis
    using date_time_recorded [OF plain_crates, where r = "[7]" and t = ?t, THEN conjunct2, THEN conjunct2]
    by (simp only: append_Cons append_Nil) (simp add: read_date_def)
qed

section \<open>System use entries\<close>

text \<open>C14: a system use area that is recorded is read back: any list of entries, of all eleven kinds, with all
  flags, names and link components the formats have, extensions with the texts the Rock Ridge
  specifications prescribe, and time stamps in the short form, followed by any number of zero bytes, gives the
  same entries in the same order, and the zero bytes are left; only the offset of a date west of
  Greenwich is lost (\<open>read_sue\<close>). Time stamps in the long form are not covered: they are misread.\<close>

theorem system_use_roundtrip:
  assumes "linked_susp B" and "es \<noteq> []" and "list_all sue_ok es"
  shows "system_use_entries B (concat (map enc_sue es) @ replicate k 0) = Ret (replicate k 0, map read_sue es)"
  by (rule linked_susp.system_use_entries_enc [OF assms])

theorem system_use_roundtrip_witness:
  "system_use_entries plain_B [78, 77, 7, 1, 0, 72, 105, 82, 69, 4, 1, 84, 70, 12, 1, 2, 124, 2, 29, 12, 30, 0, 236, 0, 0] =
    Ret ([0, 0], [AlternateName \<lparr>an_name = lit ''Hi'', an_flags = 0\<rparr>, RelocatedDirectory True,
      PosixTimestamp (PosixTimestamp_default\<lparr>ts_modify :=
        Some \<lparr>odt_date = \<lparr>date_year = 2024, date_month = 2, date_day = 29\<rparr>,
          odt_time = \<lparr>time_hour = 12, time_minute = 30, time_second = 0, time_milli = 0\<rparr>, odt_offset = 0\<rparr>\<rparr>)])"
proof -
  let ?t = "\<lparr>odt_date = \<lparr>date_year = 2024, date_month = 2, date_day = 29\<rparr>,
    odt_time = \<lparr>time_hour = 12, time_minute = 30, time_second = 0, time_milli = 0\<rparr>, odt_offset = -18000\<rparr>"
  let ?es = "[AlternateName \<lparr>an_name = lit ''Hi'', an_flags = 0\<rparr>, RelocatedDirectory True,
    PosixTimestamp (PosixTimestamp_default\<lparr>ts_modify := Some ?t\<rparr>)]"
  have name: "as_bytes (lit ''Hi'') = [72, 105]" by (simp add: as_bytes_def lit_def utf8_encode_def)
  have date: "enc_date ?t = [124, 2, 29, 12, 30, 0, 236]" by (simp add: enc_date_def)
  have times: "ts_list (PosixTimestamp_default\<lparr>ts_modify := Some ?t\<rparr>) = [?t]"
    "ts_flags (PosixTimestamp_default\<lparr>ts_modify := Some ?t\<rparr>) = 2"
    by (simp_all add: ts_list_def ts_flags_def flag7_def opt_list_def PosixTimestamp_default_def)
  have "date_ok ?t" by (simp add: date_ok_def days_in_month_def leap_year_def)
  then have "list_all sue_ok ?es"
    using name by (simp add: sue_ok_def lit_def is_scalar_def trim_matches_def times date)
  note read = system_use_roundtrip [OF plain_linked _ this, of 2]
  have "concat (map enc_sue ?es) = [78, 77, 7, 1, 0, 72, 105, 82, 69, 4, 1, 84, 70, 12, 1, 2, 124, 2, 29, 12, 30, 0, 236]"
    by (simp add: enc_sue_def susp_bytes_def name times date)
  moreover have "replicate 2 (0 :: u8) = [0, 0]" by (simp add: numeral_2_eq_2)
  moreover have "map read_sue ?es = [AlternateName \<lparr>an_name = lit ''Hi'', an_flags = 0\<rparr>, RelocatedDirectory True,
      PosixTimestamp (PosixTimestamp_default\<lparr>ts_modify := Some (?t\<lparr>odt_offset := 0\<rparr>)\<rparr>)]"
    by (simp add: read_sue_def read_timestamp_def read_date_def PosixTimestamp_default_def)
  ultimately show ?thesis using read by simp
qed

definition bad_length :: "u8 \<Rightarrow> SystemUseEntry nom_res" where
  "bad_length len = (if len = 0 then Throw (NomError Fail) else Panic)"

context linked_susp begin

lemma susp_entry_bad_length:
  assumes "unat len < 4" and "overflow_checks B"
  shows "susp_entry B None parse_data wrap (c # d # len # version # r) = bad_length len"
    and "susp_entry B (Some [a, b]) parse_data wrap (c # d # len # version # r) =
      (if c = a \<and> d = b then bad_length len else Throw (NomError Tag))"
  using assms
  by (simp_all add: bad_length_def susp_entry_def susp_parse_def parse_sig_def take_spec_def tag_spec_def usize_sub_def)

lemma system_use_entry_bad_length:
  assumes "unat len < 4" and "overflow_checks B"
  shows "system_use_entry B (c # d # len # version # r) = bad_length len"
proof (cases "len = 0")
  case True
  have zero: "unat (0 :: u8) < 4" by simp
  have bad: "bad_length 0 = Throw (NomError Fail)" by (simp add: bad_length_def)
  show ?thesis unfolding True
    by (simp add: system_use_entry_def susp_entry_bad_length [OF zero assms(2)] bad)
next
  case False
  then have bad: "bad_length len = Panic" by (simp add: bad_length_def)
  show ?thesis by (simp add: system_use_entry_def susp_entry_bad_length [OF assms] bad)
qed

end

text \<open>C38: the length byte of a system use entry is checked against 0 only: an area that starts with an
  entry of length 0 is an error, and one that starts with an entry of length 1, 2 or 3, less than the
  entry's own header, underflows and unwinds in a build with overflow checks, whatever its signature.\<close>

theorem system_use_bad_length:
  assumes "linked_susp B" and "overflow_checks B" and "unat len < 4"
  shows "system_use_entries B (c # d # len # version # r) = (if len = 0 then Throw (NomError Fail) else Panic)"
  using linked_susp.system_use_entry_bad_length [OF assms(1,3,2)]
  by (simp add: bad_length_def system_use_entries_def linked_susp.many1_sue [OF assms(1)] many1_spec_def)

theorem system_use_bad_length_witness:
  "system_use_entries plain_B [78, 77, 3, 1, 0, 0] = Panic
    \<and> system_use_entries plain_B [78, 77, 0, 1, 0, 0] = Throw (NomError Fail)"
proof -
  have "overflow_checks plain_B"
    by (simp add: std_susp_build_def std_enc_build_def std_build_def build.defs enc_build.defs)
  then show ?thesis
    using system_use_bad_length [OF plain_linked, of 3 78 77 1 "[0, 0]"]
      system_use_bad_length [OF plain_linked, of 0 78 77 1 "[0, 0]"] by simp
qed

section \<open>Directory records\<close>

text \<open>C39: a directory record takes as many bytes as its length byte says, at least 34 of them, whatever
  the bytes are: when the parser accepts a record, the input holds that many bytes and what is left
  is what follows them.\<close>

theorem directory_record_length:
  assumes "linked_susp B" and "directory_entry B i enc = Ret (r, h, name, susp)" and "length i < 2 ^ 63"
  shows "34 \<le> unat (de_length h) \<and> unat (de_length h) \<le> length i \<and> r = drop (unat (de_length h)) i
    \<and> de_length h = hd i"
  using linked_susp.directory_entry_RetD [OF assms] by simp

lemma demo_record: "directory_entry plain_B (enc_dir_record (demo_header 34 18 2) [0] [] @ [9]) Iso9660 =
    Ret ([9], demo_header 34 18 2, [0], None)"
proof -
  have "header_ok (demo_header 34 18 2) [0] []" "de_character_encoding (demo_header 34 18 2) = Iso9660"
    by (simp_all add: header_ok_def demo_header_def date_ok_def demo_time_def days_in_month_def FileFlags_all_def)
  then show ?thesis
    using std_susp.root_record_enc [of "demo_header 34 18 2"] by (simp add: demo_header_read)
qed

theorem directory_record_length_witness:
  "\<exists>r h name susp. directory_entry plain_B (enc_dir_record (demo_header 34 18 2) [0] [] @ [9]) Iso9660 =
      Ret (r, h, name, susp) \<and> 34 \<le> unat (de_length h)"
  using directory_record_length [OF plain_linked demo_record] demo_record
  by (auto simp: enc_dir_record_def)


text \<open>The record of a file \<open>ab\<close> of a Joliet directory, with a system use entry.\<close>

definition joliet_header :: DirectoryEntryHeader where
  "joliet_header = (demo_header 43 7 0)\<lparr>de_character_encoding := Ucs2Level3\<rparr>"

lemma demo_area_record:
  "name_ok Ucs2Level3 (lit ''ab'')" "list_all sue_ok [RelocatedDirectory True]"
  "enc_name Ucs2Level3 (lit ''ab'') = [0, 97, 0, 98]" "concat (map enc_sue [RelocatedDirectory True]) = [82, 69, 4, 1]"
  "header_ok joliet_header [0, 97, 0, 98] [82, 69, 4, 1, 0]"
  by (simp_all add: header_ok_def joliet_header_def demo_header_def date_ok_def demo_time_def days_in_month_def
      FileFlags_all_def lit_def enc_sue_def susp_bytes_def is_scalar_def is_whitespace_def sue_ok_def name_ok_def
      enc_name_def ucs2_bytes_def ucs2_char_def has_bom_def)


text \<open>A system use area with complete entries and then a link whose last component is shorter than announced.\<close>

definition short_link :: "u8 list \<Rightarrow> bool" where
  "short_link area \<longleftrightarrow>
    (\<exists>es c recs f n name data r.
       area = concat (map enc_sue es) @ susp_bytes (83, 76) 1 data @ r \<and> list_all sue_ok es
       \<and> data = c # concat (map enc_record recs) @ f # n # name \<and> c \<in> {0, 1} \<and> length data \<le> 251
       \<and> list_all (\<lambda>r. sl_flags r AND SymbolicLinkRecordFlags_all = sl_flags r
           \<and> list_all is_scalar (sl_component r) \<and> length (as_bytes (sl_component r)) < 256) recs
       \<and> length name < unat n)"

text \<open>C36: data that is shorter than its length byte makes the library panic: a directory record whose identifier
  would go beyond the end of the input, whatever the 32 bytes before it, and a record with an \<open>SL\<close> entry
  whose last component would go beyond the end of the entry, after any number of complete entries and
  components. The parser reports it as incomplete, which no alternative and no repetition recovers from, and
  the conversion of the error unwinds.\<close>

theorem short_data_unwinds:
  assumes "linked_susp B"
  shows "(length fixed = 32 \<and> length k < unat n \<longrightarrow> DirectoryEntryHeader_parse B (fixed @ n # k) enc = Panic)
    \<and> (short_link area \<and> header_ok h (enc_name (de_character_encoding h) name) area
        \<and> name_ok (de_character_encoding h) name \<longrightarrow>
        DirectoryEntryHeader_parse B (enc_dir_record h (enc_name (de_character_encoding h) name) area @ r)
          (de_character_encoding h) = Panic)"
proof (intro conjI impI; elim conjE)
  assume "length fixed = 32" and "length k < unat n"
  then show "DirectoryEntryHeader_parse B (fixed @ n # k) enc = Panic"
    by (rule linked_susp.directory_entry_short_name [OF assms])
next
  let ?enc = "de_character_encoding h"
  assume ok: "header_ok h (enc_name ?enc name) area" and nm: "name_ok ?enc name" and "short_link area"
  then have "system_use_entries B area = Throw NomIncomplete"
    using linked_susp.system_use_entries_short_link [OF assms _ linked_susp.SymbolicLink_short [OF assms]]
    by (auto simp: short_link_def)
  then have "opt_spec (system_use_entries B) area = Throw NomIncomplete" by (simp add: opt_spec_def)
  moreover obtain q where "identifier_string B ?enc (enc_name ?enc name) = Ret (q, name)"
    using linked_susp.identifier_string_enc [OF assms nm] by blast
  ultimately show "DirectoryEntryHeader_parse B (enc_dir_record h (enc_name ?enc name) area @ r) ?enc = Panic"
    using linked_susp.directory_entry_area [OF assms ok]
    by (simp add: DirectoryEntryHeader_parse_def try_nom_def)
qed

text \<open>A link entry whose only component announces five bytes and has one.\<close>

lemma demo_short_link:
  "short_link [83, 76, 8, 1, 0, 0, 5, 97]"
  "header_ok (joliet_header\<lparr>de_length := 46\<rparr>) [0, 97, 0, 98] [83, 76, 8, 1, 0, 0, 5, 97]"
proof -
  show "short_link [83, 76, 8, 1, 0, 0, 5, 97]"
    unfolding short_link_def
    by (rule exI [of _ "[]"], rule exI [of _ 0], rule exI [of _ "[]"], rule exI [of _ 0], rule exI [of _ 5],
        rule exI [of _ "[97]"], rule exI [of _ "[0, 0, 5, 97]"], rule exI [of _ "[]"])
      (simp add: susp_bytes_def)
qed (simp add: header_ok_def joliet_header_def demo_header_def date_ok_def demo_time_def days_in_month_def
    FileFlags_all_def)

theorem short_data_unwinds_witness:
  "DirectoryEntryHeader_parse plain_B (replicate 32 0 @ [5, 65, 66]) Iso9660 = Panic
    \<and> DirectoryEntryHeader_parse plain_B
        (enc_dir_record (joliet_header\<lparr>de_length := 46\<rparr>) [0, 97, 0, 98] [83, 76, 8, 1, 0, 0, 5, 97]) Ucs2Level3 = Panic"
proof -
  have "de_character_encoding (joliet_header\<lparr>de_length := 46\<rparr>) = Ucs2Level3" by (simp add: joliet_header_def)
  with short_data_unwinds [OF plain_linked, of "replicate 32 0" "[65, 66]" 5 Iso9660
      "[83, 76, 8, 1, 0, 0, 5, 97]" "joliet_header\<lparr>de_length := 46\<rparr>" "lit ''ab''" "[]"]
  show ?thesis using demo_short_link demo_area_record(1,3) by simp
qed

section \<open>Volume descriptors\<close>

text \<open>C13: a primary volume descriptor is read back: a block that records one as ECMA-119 8.4 lays it out, with its
  strings padded with spaces, its numbers in both byte orders, the path table locations, the root directory
  record, four dates that are set or not, and any data for the application, is parsed to the table that is
  recorded, but for three fields and their kind (\<open>read_table\<close>): the program takes 38 bytes for the
  copyright and 36 for the abstract file identifier, where the standard has 37 for each, so the first character
  of the abstract file identifier moves to the end of the other; it adds 1900 to the year of the four
  dates; and dates west of Greenwich lose their offset. The three are reported as bugs.\<close>

theorem primary_descriptor_roundtrip:
  assumes "linked_susp B" and "primary_ok t x"
  shows "length (enc_primary t x) = BLOCK_SIZE
    \<and> VolumeDescriptor_parse B (enc_primary t x) = Ret (Some (Primary (read_table t)))"
  using linked_susp.enc_primary_parse [OF assms] length_enc_primary [OF assms(2)] by simp

theorem primary_descriptor_roundtrip_witness:
  "\<exists>t. VolumeDescriptor_parse plain_B (enc_primary demo_pvd demo_rest) = Ret (Some (Primary t))
    \<and> volume_identifier t = lit ''CDROM'' \<and> abstract_file_identifier t = lit ''BSTRACT''
    \<and> last (copyright_file_identifier t) = 65 \<and> date_year (odt_date (vd_creation_time t)) = 3900"
  using primary_descriptor_roundtrip [OF plain_linked demo_primary_ok]
  by (simp add: read_table_def demo_pvd_def lit_def trim_end_def is_whitespace_def read_long_date_def demo_time_def
      days_in_month_def)

section \<open>Names\<close>

text \<open>C37: the name and the version of a file or a link: a recorded identifier \<open>name;version\<close>, with or without
  a dot before the semicolon and with or without the version, gives the name without the dot and the
  version, 1 if there is none.\<close>

theorem file_name_version:
  assumes "59 \<notin> set name" and "dot \<or> \<not> ends_with 46 name" and "alt_name ext = None"
  shows "(\<exists>f. ISOFile_new header ext (recorded_name name dot version) = Ret f
      \<and> file_identifier f = name \<and> file_version f = (case version of Some v \<Rightarrow> v | None \<Rightarrow> 1))
    \<and> (\<exists>l. Symlink_new header ext (recorded_name name dot version) = Ret l
      \<and> sym_identifier l = name \<and> sym_version l = (case version of Some v \<Rightarrow> v | None \<Rightarrow> 1))"
  using name_and_version_recorded [OF assms(1,2), of version] assms(3)
  by (simp add: ISOFile_new_def Symlink_new_def Let_def del: and_then_eq_Ret)

theorem file_name_version_witness:
  "\<exists>f. ISOFile_new (demo_header 44 7 0) ExtraMeta_default (lit ''README.;2'') = Ret f
    \<and> file_identifier f = lit ''README'' \<and> file_version f = 2"
proof -
  have "recorded_name (lit ''README'') True (Some 2) = lit ''README.;2''" by (simp add: recorded_name_def lit_def decimal.simps)
  with file_name_version [of "lit ''README''" True ExtraMeta_default "demo_header 44 7 0" "Some 2"]
  show ?thesis by (simp add: ExtraMeta_default_def lit_def)
qed

text \<open>A Rock Ridge name is taken for a versioned identifier: a file or a link whose alternate name has
  a semicolon is refused with a parse error unless what follows the last semicolon is a decimal
  number below 65536, although such names carry no version; a directory of the same name is not.\<close>

theorem alternate_name_semicolon:
  assumes "alt_name ext = Some (a @ 59 # b)" and "59 \<notin> set b" and "parse_u16 b = Inl err"
  shows "ISOFile_new header ext identifier = Throw (ParseInt err)
    \<and> Symlink_new header ext identifier = Throw (ParseInt err)
    \<and> (a @ 59 # b \<notin> {[0], [1]} \<longrightarrow> dir_identifier (ISODirectory_new header ext identifier) = a @ 59 # b)"
proof -
  have "rfind 59 (a @ 59 # b) = Some (length a)" using assms(2) by (rule rfind_append)
  then have "name_and_version (a @ 59 # b) = Throw (ParseInt err)"
    using assms(3) by (simp add: name_and_version_def)
  then show ?thesis using assms(1) by (simp add: ISOFile_new_def Symlink_new_def ISODirectory_new_def Let_def)
qed

theorem alternate_name_semicolon_witness:
  "\<exists>err. ISOFile_new (demo_header 44 7 0) (ExtraMeta_default\<lparr>alt_name := Some (lit ''a;b'')\<rparr>) (lit ''A.;1'') =
    Throw (ParseInt err)"
proof -
  have "lit ''a;b'' = lit ''a'' @ 59 # lit ''b''" by (simp add: lit_def)
  moreover obtain err where "parse_u16 (lit ''b'') = Inl err" by (auto simp: parse_u16_def lit_def)
  ultimately show ?thesis
    using alternate_name_semicolon [of "ExtraMeta_default\<lparr>alt_name := Some (lit ''a;b'')\<rparr>" "lit ''a''" "lit ''b''" err]
    by (auto simp: lit_def)
qed

end
