(* ===== verification/Metadata_Facts.thy ===== *)
theory Metadata_Facts
  imports Metadata_Spec
begin

text \<open>
  The properties of the metadata of an entry (\<open>ISODirectory::read_entry_at\<close>): the alternate name from
  its pieces, the timestamps, the target of a symbolic link from its components, and what kind of
  entry, with which name, a record becomes.
\<close>

section \<open>Properties\<close>

text \<open>C27: a long name is put together from its pieces: the alternate name is the concatenation of the names
  of the \<open>NM\<close> entries in their order, up to and with the first one that has no \<open>CONTINUE\<close> flag, whatever
  other entries stand between them; without \<open>NM\<close> entries there is none.\<close>

theorem alternate_name_pieces:
  assumes "linked_susp B"
  shows "(names_of susp = [] \<longrightarrow> susp_alt_name B susp = None)
    \<and> (names_of susp = pre @ n # post \<longrightarrow> (\<forall>m \<in> set pre. bit (an_flags m) 0) \<longrightarrow> \<not> bit (an_flags n) 0 \<longrightarrow>
        susp_alt_name B susp = Some (concat (map an_name pre) @ an_name n))"
  using pieces_prefix [of pre "\<lambda>n. bit (an_flags n) 0" n post]
  by (simp add: linked_susp.susp_alt_name_eq [OF assms] alt_name_of_def)

theorem alternate_name_pieces_witness:
  "susp_alt_name (std_susp_build True False True)
    [AlternateName \<lparr>an_name = lit ''long-'', an_flags = 1\<rparr>, RelocatedDirectory True,
     AlternateName \<lparr>an_name = lit ''name'', an_flags = 0\<rparr>] = Some (lit ''long-name'')"
  using alternate_name_pieces [OF std_susp.linked_susp_axioms [where asserts = True and big = False and checks = True],
      where susp = "[AlternateName \<lparr>an_name = lit ''long-'', an_flags = 1\<rparr>, RelocatedDirectory True,
        AlternateName \<lparr>an_name = lit ''name'', an_flags = 0\<rparr>]"
      and pre = "[\<lparr>an_name = lit ''long-'', an_flags = 1\<rparr>]" and n = "\<lparr>an_name = lit ''name'', an_flags = 0\<rparr>"
      and post = "[]"]
  by (simp add: List.map_filter_simps lit_def)

text \<open>C29: of several \<open>TF\<close> entries the last one that has a creation, modification, access or attribute
  change time gives it; the backup, expiration and effective times of an entry are lost, so
  \<open>backup_time\<close>, \<open>expire_time\<close> and \<open>effective_time\<close> give the recording time even where a \<open>TF\<close> entry
  records them.\<close>

theorem timestamps_collected:
  "ts_creation (susp_timestamps susp) = last_of (map ts_creation (times_of susp))
    \<and> ts_modify (susp_timestamps susp) = last_of (map ts_modify (times_of susp))
    \<and> ts_access (susp_timestamps susp) = last_of (map ts_access (times_of susp))
    \<and> ts_attributes (susp_timestamps susp) = last_of (map ts_attributes (times_of susp))
    \<and> (extra_meta_of B susp = Ret ext \<longrightarrow> backup_time ext header = de_time header
        \<and> expire_time ext header = de_time header \<and> effective_time ext header = de_time header)"
  by (auto simp: susp_timestamps_eq timestamps_of_def extra_meta_of_def backup_time_def expire_time_def
      effective_time_def attr_time_def)

theorem timestamps_collected_witness:
  "let t = \<lparr>odt_date = \<lparr>date_year = 2024, date_month = 2, date_day = 29\<rparr>,
      odt_time = \<lparr>time_hour = 12, time_minute = 30, time_second = 0, time_milli = 0\<rparr>, odt_offset = 0\<rparr>;
    susp = [PosixTimestamp (PosixTimestamp_default\<lparr>ts_modify := Some t, ts_backup := Some t\<rparr>)]
   in \<exists>ext. extra_meta_of (std_susp_build True False True) susp = (Ret ext :: (ISOError, _) exec)
     \<and> ts_modify (susp_timestamps susp) = Some t \<and> (\<forall>header. backup_time ext header = de_time header)"
proof -
  define t where "t = \<lparr>odt_date = \<lparr>date_year = 2024, date_month = 2, date_day = 29\<rparr>,
    odt_time = \<lparr>time_hour = 12, time_minute = 30, time_second = 0, time_milli = 0\<rparr>, odt_offset = 0\<rparr>"
  let ?susp = "[PosixTimestamp (PosixTimestamp_default\<lparr>ts_modify := Some t, ts_backup := Some t\<rparr>)]"
  obtain ext where "extra_meta_of (std_susp_build True False True) ?susp = (Ret ext :: (ISOError, _) exec)"
    by (auto simp: extra_meta_of_def susp_symlink_target_def List.map_filter_simps std_susp.take_while_sl)
  with timestamps_collected [of ?susp "std_susp_build True False True" ext] show ?thesis
    by (auto simp: t_def [symmetric] Let_def List.map_filter_simps last_of_def)
qed

text \<open>C28: the target of a symbolic link: all components of the \<open>SL\<close> entries, up to and with the first
  entry that does not continue (\<open>components_of\<close>), from the last root component on, with a slash in front
  if there is a root and slashes in between, the current directory as \<open>.\<close>, the parent as \<open>..\<close>
  and any other component as its name (\<open>link_target\<close>); how the components are spread over the entries
  does not show. The names are not empty and hold no slash, and the special components have none
  (\<open>links_ok\<close>). The \<open>CONTINUE\<close> flag of a component has no effect: a name that is split over two components
  gets a slash in between, which is reported as a bug.\<close>

theorem symlink_target_joined:
  assumes "linked_susp B" and "links_ok susp"
  shows "(susp_symlink_target B susp :: ('e, _) exec) =
    Ret (if links_of susp = [] then None else Some (link_target (components_of susp)))"
  by (rule linked_susp.susp_symlink_target_eq [OF assms])

definition component :: "u8 \<Rightarrow> string \<Rightarrow> SymbolicLinkRecord" where
  "component flags name = \<lparr>sl_flags = flags, sl_component = lit name\<rparr>"

theorem symlink_target_joined_witness:
  "susp_symlink_target (std_susp_build True False True)
    [SymbolicLink \<lparr>should_continue = True, sl_records = [component 0 ''x'', component 8 [], component 0 ''usr'']\<rparr>,
     RelocatedDirectory True,
     SymbolicLink \<lparr>should_continue = False, sl_records = [component 4 [], component 2 [], component 0 ''lib'']\<rparr>,
     SymbolicLink \<lparr>should_continue = False, sl_records = [component 0 ''y'']\<rparr>] =
    (Ret (Some (lit ''/usr/.././lib'')) :: (ISOError, _) exec)"
proof -
  let ?a = "[component 0 ''x'', component 8 [], component 0 ''usr'']"
  let ?b = "[component 4 [], component 2 [], component 0 ''lib'']"
  let ?susp = "[SymbolicLink \<lparr>should_continue = True, sl_records = ?a\<rparr>, RelocatedDirectory True,
    SymbolicLink \<lparr>should_continue = False, sl_records = ?b\<rparr>,
    SymbolicLink \<lparr>should_continue = False, sl_records = [component 0 ''y'']\<rparr>]"
  have links: "links_of ?susp = [\<lparr>should_continue = True, sl_records = ?a\<rparr>, \<lparr>should_continue = False, sl_records = ?b\<rparr>,
      \<lparr>should_continue = False, sl_records = [component 0 ''y'']\<rparr>]"
    by (simp add: List.map_filter_simps)
  have comps: "components_of ?susp = ?a @ ?b" unfolding components_of_def links by (simp add: pieces_def)
  have "links_ok ?susp" unfolding links_ok_def comps links
    by (simp add: pieces_def component_ok_def component_def lit_def bit_numeral_rec)
  moreover have "link_target (?a @ ?b) = lit ''/usr/.././lib''"
    by (simp add: link_target_def component_text_def component_def lit_def bit_numeral_rec)
  ultimately show ?thesis
    using symlink_target_joined [OF std_susp.linked_susp_axioms [where asserts = True and big = False and checks = True], of ?susp]
    unfolding comps links by simp
qed

section \<open>What a record becomes\<close>

primrec is_directory :: "DirectoryEntry \<Rightarrow> bool" where
  "is_directory (Directory d) = True"
| "is_directory (File f) = False"
| "is_directory (Symlink l) = False"

primrec is_symlink :: "DirectoryEntry \<Rightarrow> bool" where
  "is_symlink (Directory d) = False"
| "is_symlink (File f) = False"
| "is_symlink (Symlink l) = True"

text \<open>The header of a record of one block, with the given flags.\<close>

definition record_header :: "u8 \<Rightarrow> DirectoryEntryHeader" where
  "record_header flags =
    \<lparr>de_length = 34, extended_attribute_record_length = 0, extent_loc = 20, extent_length = 2048,
     de_time = \<lparr>odt_date = \<lparr>date_year = 2000, date_month = 1, date_day = 1\<rparr>,
       odt_time = \<lparr>time_hour = 0, time_minute = 0, time_second = 0, time_milli = 0\<rparr>, odt_offset = 0\<rparr>,
     file_flags = flags, file_unit_size = 0, interleave_gap_size = 0, de_volume_sequence_number = 1,
     de_character_encoding = Iso9660\<rparr>"

text \<open>C11: what a directory record becomes: a directory if its directory flag is set or its system use
  entries have a child link, else a symbolic link if the first \<open>PX\<close> entry has the mode of one, else a
  file; with a child link the extent is the one block it refers to, otherwise the one of the record;
  mode, owner and group are those of the first \<open>PX\<close> entry. Its name is the alternate name of the \<open>NM\<close>
  entries, if there are any, else the recorded identifier; for a file, a link, and a directory of a
  child link that has no alternate name, what stands before the last semicolon, without a dot at its end;
  for a directory the single characters 0 and 1 become \<open>.\<close> and \<open>..\<close>.\<close>

theorem record_entry:
  assumes "linked_susp B" and "finish_entry B self block n pos h ident susp = Ret (e, nxt)"
  shows "(is_directory e \<longleftrightarrow> bit (file_flags h) 1 \<or> child_links_of susp \<noteq> [])
    \<and> (is_symlink e \<longleftrightarrow> \<not> bit (file_flags h) 1 \<and> (\<exists>a as. attributes_of susp = a # as \<and> symlink_mode (px_mode a)))
    \<and> (case child_links_of susp of
         [] \<Rightarrow> entry_header e = h
       | loc # _ \<Rightarrow> extent_loc (entry_header e) = loc \<and> extent_length (entry_header e) = 2048
           \<and> \<not> bit (file_flags h) 1 \<and> de_time (entry_header e) = de_time h)
    \<and> (case attributes_of susp of
         [] \<Rightarrow> mode (entry_ext e) = None \<and> owner (entry_ext e) = None \<and> group (entry_ext e) = None
       | a # _ \<Rightarrow> mode (entry_ext e) = Some (px_mode a) \<and> owner (entry_ext e) = Some (px_uid a)
           \<and> group (entry_ext e) = Some (px_gid a))
    \<and> entry_identifier e =
        (let name = unwrap_or (alt_name_of susp) ident in
         if bit (file_flags h) 1 then dir_name name
         else if child_links_of susp = [] then base_name name
         else dir_name (unwrap_or (alt_name_of susp) (base_name ident)))"
proof -
  have B: "linked B" using assms(1) by (simp add: linked_susp_def linked_enc_def)
  from assms(2) obtain ext e0 where ext: "extra_meta_of B susp = (Ret ext :: (ISOError, _) exec)"
    and e0: "DirectoryEntry_new B h ext ident = Ret e0"
    and e: "follow_child_link B (susp_child_link susp) e0 = (Ret e :: (ISOError, _) exec)"
    by (auto simp: finish_entry_def Let_def)
  from ext have alt: "alt_name ext = alt_name_of susp"
    by (auto simp: extra_meta_of_def linked_susp.susp_alt_name_eq [OF assms(1)])
  from ext have attrs: "attributes ext = (case attributes_of susp of [] \<Rightarrow> None | a # _ \<Rightarrow> Some a)"
    by (auto simp: extra_meta_of_def susp_attributes_def first_of_def)
  note new = e0 [unfolded linked.DirectoryEntry_new_eq [OF B] Let_def alt]
  note posix = mode_def owner_def group_def attrs is_link_def
  note link = e [unfolded susp_child_link_eq follow_child_link_def]
  show ?thesis
  proof (cases "bit (file_flags h) 1")
    case True
    then show ?thesis using new link
      by (auto simp: posix Let_def split: list.splits)
  next
    case False
    then obtain base v where nv: "name_and_version (unwrap_or (alt_name_of susp) ident) = Ret (base, v)"
      and e0': "e0 = (if is_link ext
            then Symlink \<lparr>sym_header = h, sym_identifier = base, sym_version = v, sym_ext = ext\<rparr>
            else File \<lparr>file_header = h, file_identifier = base, file_version = v, file_ext = ext\<rparr>)"
      using new by auto
    from name_and_version_base [OF nv] have base: "base = base_name (unwrap_or (alt_name_of susp) ident)" .
    have relocated: "unwrap_or (alt_name_of susp) base = unwrap_or (alt_name_of susp) (base_name ident)"
      by (cases "alt_name_of susp") (simp_all add: base)
    show ?thesis
    proof (cases "is_link ext")
      case True
      then show ?thesis using False link e0' base
        by (auto simp: posix Let_def split: list.splits)
    next
      case plain_file: False
      then show ?thesis using False link e0' base relocated
        by (auto simp: posix ISODirectory_new_eq alt Let_def split: list.splits)
    qed
  qed
qed

theorem record_entry_witness:
  "\<exists>e. finish_entry (std_susp_build True False True)
      \<lparr>dir_header = record_header 2, dir_identifier = [], dir_ext = ExtraMeta_default\<rparr> (replicate 2048 0) 0 0
      (record_header 0) (lit ''A'') [ChildLink 77] = Ret (e, None)
    \<and> is_directory e \<and> extent_loc (entry_header e) = 77"
proof -
  let ?B = "std_susp_build True False True" and ?dir = "\<lparr>dir_header = record_header 2, dir_identifier = [], dir_ext = ExtraMeta_default\<rparr>"
  have meta: "extra_meta_of ?B [ChildLink 77] = (Ret ExtraMeta_default :: (ISOError, _) exec)"
    by (simp add: extra_meta_of_def susp_symlink_target_def susp_alt_name_def susp_attributes_def susp_extensions_def
        susp_timestamps_def susp_relocated_def first_of_def List.map_filter_simps ExtraMeta_default_def)
  have "name_and_version (lit ''A'') = Ret (lit ''A'', 1)"
    by (simp add: name_and_version_def lit_def ends_with_def)
  then have new: "DirectoryEntry_new ?B (record_header 0) ExtraMeta_default (lit ''A'') =
      Ret (File \<lparr>file_header = record_header 0, file_identifier = lit ''A'', file_version = 1, file_ext = ExtraMeta_default\<rparr>)"
    by (simp add: DirectoryEntry_new_def ISOFile_new_def record_header_def ExtraMeta_default_def Let_def)
  have nxt: "next_entry_offset ?B ?dir (replicate 2048 0) 0 34 = (Ret None :: (ISOError, _) exec)"
    by (simp add: next_entry_offset_def block_count_def index_of_def record_header_def word_add_def word_sub_def Let_def)
  have "\<exists>e. finish_entry ?B ?dir (replicate 2048 0) 0 0 (record_header 0) (lit ''A'') [ChildLink 77] = Ret (e, None)"
    using meta new nxt
    by (simp add: finish_entry_def record_header_def follow_child_link_def susp_child_link_def first_of_def
        List.map_filter_simps Let_def del: and_then_eq_Ret)
  with record_entry [OF std_susp.linked_susp_axioms] show ?thesis by (fastforce simp: List.map_filter_simps)
qed

end
