(* ===== verification/Divergences.thy ===== *)
theory Divergences
  imports Parse_Properties Metadata_Facts
begin

text \<open>
  Where the program departs from the formats it reads or from its own documentation, as far as the
  properties of the other theories do not already say so.
\<close>

section \<open>Parsers\<close>

text \<open>The offset of a continuation area within its block (SUSP 5.1) has no effect.\<close>

lemma continuation_offset_ignored:
  "read_continuation B rd (cont\<lparr>ce_offset := offset\<rparr>) r = read_continuation B rd cont r"
proof -
  have fields: "ce_length (cont\<lparr>ce_offset := offset\<rparr>) = ce_length cont"
    "block_location (cont\<lparr>ce_offset := offset\<rparr>) = block_location cont" by simp_all
  show ?thesis unfolding read_continuation_def fields by (rule refl)
qed

text \<open>Nor has the flag of the \<open>TF\<close> entry (RRIP 4.1.6) that announces dates of seventeen bytes.\<close>

lemma long_form_ignored:
  assumes "linked B"
  shows "PosixTimestamp_parse_data B (flags # i) sig version =
    PosixTimestamp_parse_data B ((flags AND 0x7F) # i) sig version"
  by (simp add: PosixTimestamp_parse_data_def linked.le_u8 [OF assms] linked.contains8 [OF assms]
      linked.truncate8 [OF assms] PosixTimestampFlags_all_def and.assoc)

text \<open>An extension other than the three known ones makes the parser unwind.\<close>

lemma unknown_extension_unwinds:
  assumes "linked B" and "unat n = length ident" and "from_utf8 ident = Some s"
    and "version = 1 \<Longrightarrow> trim_end s \<notin> {lit ''RRIP_1991A'', lit ''IEEE_P1282'', lit ''IEEE_1282''}"
  shows "susp_extension B ([n, 0, 0, version] @ ident @ r) = Panic"
proof -
  have take: "take_str B (unat n) (ident @ r) = Ret (r, trim_end s)" "take_str B 0 r = Ret (r, trim_end [])"
    using assms(2,3) by (simp_all add: take_str_def linked.take [OF assms(1)] take_spec_def from_utf8_def)
  have "susp_extension B ([n, 0, 0, version] @ ident @ r) =
      (if trim_end s = lit ''RRIP_1991A'' \<and> version = 1 then Ret (r, RockRidge1_09)
       else if trim_end s = lit ''IEEE_P1282'' \<and> version = 1 then Ret (r, RockRidge1_12)
       else if trim_end s = lit ''IEEE_1282'' \<and> version = 1 then Ret (r, RockRidge1_12)
       else Panic)"
    by (simp only: susp_extension_def linked.le_u8 [OF assms(1)] append_Cons append_Nil le_u8_spec_simps
        and_then.simps case_prod_conv take unsigned_0)
  moreover have "\<not> (trim_end s = lit ''RRIP_1991A'' \<and> version = 1)" "\<not> (trim_end s = lit ''IEEE_P1282'' \<and> version = 1)"
    "\<not> (trim_end s = lit ''IEEE_1282'' \<and> version = 1)" using assms(4) by blast+
  ultimately show ?thesis by (simp only: if_False)
qed

text \<open>A record shorter than its own fixed part and name makes the parser unwind in a build with overflow
  checks.\<close>

lemma short_record_unwinds:
  assumes "linked_susp B" and "overflow_checks B" and "header_ok h name []"
    and "identifier_string B (de_character_encoding h) name = Ret (q, nm)" and "len < de_length h"
  shows "directory_entry B (len # tl (enc_dir_record h name [])) (de_character_encoding h) = Panic"
proof -
  let ?tail = "[of_nat (length name)] @ name @ (if even (length name) then [0] else [])"
  have B: "linked B" using assms(1) by (simp add: linked_susp_def linked_enc_def)
  have hd: "enc_dir_record h name [] = de_length h # tl (enc_dir_record h name [])" by (simp add: enc_dir_record_def)
  then have total: "length (tl (enc_dir_record h name [])) + 1 = unat (de_length h)"
    using length_enc_dir_record [OF assms(3)] by (metis Suc_eq_plus1 length_Cons)
  have "record_fixed B (de_character_encoding h) (len # tl (enc_dir_record h name [])) =
      Ret (?tail, (read_header h)\<lparr>de_length := len\<rparr>)"
    using linked_susp.record_fixed_enc [OF assms(1,3), of "[]"] hd
    by (cases h) (auto simp: record_fixed_def read_header_def linked.le_u8 [OF B])
  moreover have "record_tail B (unat (de_length h)) ((read_header h)\<lparr>de_length := len\<rparr>) ?tail = Panic"
  proof -
    have "unat (de_length h) < 256" by (rule unat_u8)
    then have "unat (of_nat (length name) :: u8) = length name"
      using assms(3) by (intro unat_of_nat_u8) (simp add: header_ok_def)
    moreover have "unat len < unat (de_length h)" using assms(5) by (simp add: word_less_nat_alt)
    moreover have "Suc (length name) mod 2 = (if even (length name) then 1 else 0)" by presburger
    ultimately show ?thesis using assms(2,4)
      by (simp add: record_tail_def linked.length_data [OF B] linked.le_u8 [OF B] linked.take [OF B]
          length_data_spec_def take_spec_def usize_sub_def)
  qed
  ultimately show ?thesis using total by (simp add: directory_entry_split)
qed

text \<open>The year of the dates of a volume descriptor is recorded in full (ECMA-119 8.4.26.1), and 1900 is
  added to it: noon of the first of February 2023.\<close>

lemma descriptor_year:
  "\<exists>t. date_time_ascii plain_B [50, 48, 50, 51, 48, 50, 48, 49, 49, 50, 48, 48, 48, 48, 48, 48, 0] = Ret ([], t)
    \<and> date_year (odt_date t) = 3923"
proof -
  let ?t = "\<lparr>odt_date = \<lparr>date_year = 2023, date_month = 2, date_day = 1\<rparr>,
    odt_time = \<lparr>time_hour = 12, time_minute = 0, time_second = 0, time_milli = 0\<rparr>, odt_offset = 0\<rparr>"
  have n: "(4 :: nat) = Suc (Suc (Suc (Suc 0)))" "(2 :: nat) = Suc (Suc 0)" by simp_all
  have "digits 4 x = [of_nat (48 + x div 10 div 10 div 10 mod 10), of_nat (48 + x div 10 div 10 mod 10),
      of_nat (48 + x div 10 mod 10), of_nat (48 + x mod 10)]"
    "digits 2 x = [of_nat (48 + x div 10 mod 10), of_nat (48 + x mod 10)]" for x
    unfolding n by simp_all
  then have "enc_long_date ?t = [50, 48, 50, 51, 48, 50, 48, 49, 49, 50, 48, 48, 48, 48, 48, 48, 0]"
    by (simp add: enc_long_date_def)
  moreover have "long_date_ok ?t" by (simp add: long_date_ok_def days_in_month_def)
  ultimately show ?thesis
    using std_susp.date_time_ascii_enc [of ?t True False True "[]"]
    by (simp add: read_long_date_def days_in_month_def)
qed

text \<open>An \<open>NM\<close> entry that names the current or the parent directory (RRIP 4.1.4) by its flag has no name, and the
  entry gets the empty name.\<close>

lemma name_flags_ignored:
  "linked_susp B \<Longrightarrow> flags \<in> {2, 4} \<Longrightarrow>
    susp_alt_name B [AlternateName \<lparr>an_name = [], an_flags = flags\<rparr>] = Some []"
  by (auto simp: linked_susp.susp_alt_name_eq alt_name_of_def pieces_def List.map_filter_simps)

text \<open>A component of a link whose name is continued in the next one (RRIP 4.1.3.1).\<close>

lemma continued_component_slash:
  assumes "linked_susp B"
  shows "susp_symlink_target B [SymbolicLink \<lparr>should_continue = False,
      sl_records = [component 1 ''foo'', component 0 ''bar'']\<rparr>] = (Ret (Some (lit ''foo/bar'')) :: (ISOError, _) exec)"
proof -
  let ?susp = "[SymbolicLink \<lparr>should_continue = False, sl_records = [component 1 ''foo'', component 0 ''bar'']\<rparr>]"
  have "components_of ?susp = [component 1 ''foo'', component 0 ''bar'']"
    by (simp add: components_of_def pieces_def List.map_filter_simps)
  moreover from this have "links_ok ?susp"
    by (simp add: links_ok_def pieces_def List.map_filter_simps component_ok_def component_def lit_def bit_numeral_rec)
  ultimately show ?thesis
    using linked_susp.susp_symlink_target_eq [OF assms, of ?susp]
    by (simp add: List.map_filter_simps link_target_def component_text_def component_def lit_def bit_numeral_rec)
qed

section \<open>Readers\<close>

text \<open>The number of bytes \<open>read_at\<close> delivers is not looked at: where the extent of a file lies past the end of
  the image, a read succeeds and gives zeros.\<close>

lemma missing_extent_zeros:
  assumes "image_reader rd ok []" and "ok r"
  shows "\<exists>self' r'. ISOFileReader_read rd \<lparr>fr_buf = BlockBuffer_new, buf_lba = None, fr_seek = 0, start_lba = 7, fr_size = 3\<rparr>
    [1, 2, 3] r = (Ret 3, self', [0, 0, 0], r')"
proof -
  let ?self = "\<lparr>fr_buf = BlockBuffer_new, buf_lba = None, fr_seek = 0, start_lba = 7, fr_size = 3\<rparr>"
  obtain r' where "FileRef_read_at rd r BlockBuffer_new 7 = (Ret 0, BlockBuffer_new, r')"
    using image_reader.FileRef_read_imageE [OF assms, of 7 BlockBuffer_new] by (auto simp: img_at_def)
  moreover have zeros: "(slice_of 0 3 BlockBuffer_new :: (io_error, u8 list) exec) = Ret [0, 0, 0]"
    by (simp add: slice_of_def BlockBuffer_new_def) (simp add: numeral_eq_Suc)
  ultimately have "load_block rd 7 ?self r = (Ret (), ?self\<lparr>buf_lba := Some 7\<rparr>, r')" by (simp add: load_block_def)
  then have "read_loop rd 3 0 ?self [] r = (Ret 3, ?self\<lparr>buf_lba := Some 7\<rparr>, [0, 0, 0], r')"
    by (simp add: zeros read_loop.simps [of rd 3 0] read_loop.simps [of rd 0])
  then show ?thesis by (simp add: ISOFileReader_read_def numeral_eq_Suc)
qed

text \<open>An iterator that meets a record it cannot read gives the same error for ever.\<close>

lemma iterator_repeats_error:
  assumes "image_directory B rd ok img" and "ok r" and "image_directory.iter_ok img dir it"
    and "next_offset it = Some off" and "entry_at B img dir off = Throw e"
  shows "\<exists>it' r'. ok r' \<and> iterator_next B rd it r = (Some (Throw e), it', r')
    \<and> image_directory.iter_ok img dir it' \<and> next_offset it' = Some off"
proof -
  obtain it' r' where "ok r'" "iterator_next B rd it r = (Some (Throw e), it', r')" "image_directory.iter_ok img dir it'"
    using image_directory.iterator_next_image [OF assms(1-4)] assms(5) by auto
  moreover from this(2) assms(4) have "next_offset it' = Some off"
    by (auto simp: iterator_next_def Let_def split: prod.splits exec.splits)
  ultimately show ?thesis by blast
qed

end
