(* ===== verification/Spec2Isabelle.thy ===== *)
theory Spec2Isabelle
  imports Example_Image Parse_Properties Metadata_Facts Divergences
begin

text \<open>
  \<^bold>\<open>cdfs, a reader of ISO 9660 images, and cdfs-fuse, a FUSE server over it.\<close>

  \<^bold>\<open>The program.\<close> The library \<open>cdfs\<close> opens an image through anything that reads blocks of 2048 bytes
  (\<open>ISO9660Reader\<close>, implemented for every \<open>Read + Seek\<close>). \<open>ISO9660::new\<close> reads volume descriptors from
  block 16 on until the terminator and keeps the primary root directory and the last supplementary
  one (Joliet); \<open>ISO9660::root\<close> prefers the first if it carries Rock Ridge metadata. A directory is an
  extent of directory records; \<open>ISODirectory::read_entry_at\<close> reads one of them, through a cache of one
  block, with the system use area of the record (SUSP, Rock Ridge) and the chain of continuation
  areas of it, and makes a file, a directory or a symbolic link of it. \<open>contents\<close>, \<open>find\<close> and
  \<open>find_recursive\<close> iterate over \<open>read_entry_at\<close>. A file is read through an \<open>ISOFileReader\<close> with a cache
  of one block. The binary \<open>cdfs_fuse\<close> keeps tables of inodes, open files and open directories over
  an opened image and answers the requests of the kernel. The examples \<open>print_file\<close> and \<open>print_tree\<close>
  are small clients of the library.

  \<^bold>\<open>How the model is built.\<close>
  A call of the program ends in a value of \<open>exec\<close> (theory \<open>Prelude\<close>): \<open>Ret\<close> a value, \<open>Throw\<close> an error of
  a \<open>Result\<close>, \<open>Panic\<close> (it unwinds), or \<open>Hang\<close> (it never returns); \<open>and_then\<close> is the \<open>?\<close> operator. State
  is passed explicitly: the reader of the image is a value of a type \<open>'r\<close> that every operation which
  reads takes and returns, which stands for the shared \<open>Rc<RefCell<_>>\<close> of \<open>FileRef\<close>; caches and tables
  are records. \<open>u8\<close>, \<open>u16\<close> and \<open>u32\<close> are machine words; \<open>usize\<close> and \<open>u64\<close> are natural numbers, and where
  the source can leave their range (a subtraction, the product in \<open>read_at\<close>, the casts of \<open>seek\<close>) the
  model writes out the wrap-around or, in a build with overflow checks, the panic. Strings are lists
  of Unicode scalar values, UTF-8 is modelled in \<open>Rust_Str\<close>.

  The crates the program is linked against (\<open>nom\<close>, \<open>bitflags\<close>, \<open>time\<close>, \<open>encoding_rs\<close>, \<open>itertools\<close>) are
  fields of a record \<open>build\<close>, together with the Cargo features and the overflow checks of the profile,
  and every definition that calls them takes the build as its first argument. The locales \<open>linked\<close>,
  \<open>linked_enc\<close> and \<open>linked_susp\<close> state the documented behaviour of the functions used, errors and incomplete
  input (\<open>length_data\<close>) included; \<open>std\<close>, \<open>std_enc\<close> and \<open>std_susp\<close> interpret them on concrete functions, for all settings of the features, so the laws
  can be kept together. The reader of the image is an argument too: \<open>slice_reader\<close> says that it keeps
  the length of a buffer (which the type \<open>&mut [u8]\<close> enforces), \<open>image_reader\<close> that it serves the bytes
  of an image; \<open>cursor\<close> interprets the latter for the program's own blanket implementation over an
  in-memory \<open>Cursor\<close>, and \<open>directory_reader\<close> and \<open>image_directory\<close> combine them with the crates.

  Loops over a finite input are total functions. Loops that may not end are \<open>partial_function\<close>s into
  \<open>option\<close> (the descriptors, the chain of continuation areas, the loops over entries), and \<open>None\<close> is
  read as \<open>Hang\<close> by the function around the loop: no fuel is used, and that a loop ends is a theorem.

  \<^bold>\<open>Theories and sources\<close> (below \<open>cdfs/src\<close> unless said otherwise).
  \<^item> \<open>Errors\<close>: \<open>error.rs\<close>. \<open>Both_Endian\<close>, \<open>Date_Time\<close>, \<open>Char_Encoding\<close>, \<open>Susp\<close>, \<open>Dir_Record\<close>, \<open>Vol_Desc\<close>: the
    files of \<open>parse/\<close>, one definition per parser; \<open>Susp_Facts\<close>, \<open>File_Mode\<close>, \<open>Parse_Ends\<close>,
    \<open>Descriptor_Image\<close> and \<open>Parse_Properties\<close> hold what is proved of them.
  \<^item> \<open>Fileref\<close>: \<open>fileref.rs\<close>. \<open>File_Reader\<close>: \<open>ISOFileReader\<close> of \<open>directory_entry/isofile.rs\<close>.
  \<^item> \<open>Extra_Meta\<close>, \<open>Entries\<close>, \<open>Iso_Directory\<close>: the other files of \<open>directory_entry/\<close>; the long function
    \<open>read_entry_at\<close> is split into definitions at its comments and blank lines (\<open>load_dir_block\<close>,
    \<open>parse_entry\<close>, \<open>pull_continuations\<close>, one function per piece of metadata, \<open>finish_entry\<close>).
    \<open>Continuation\<close>, \<open>Metadata_Spec\<close>, \<open>Metadata_Facts\<close>, \<open>Directory_Facts\<close> and \<open>Directory_Image\<close> hold what is
    proved of them.
  \<^item> \<open>Iso9660\<close>: \<open>lib.rs\<close>.
  \<^item> \<open>Fuse\<close>: \<open>cdfs-fuse/src/bin/cdfs_fuse.rs\<close>, one function per handler, the reply as a value;
    \<open>Fuse_Facts\<close> (the server as a state machine: requests, runs, invariant), \<open>Fuse_Listing\<close>, \<open>Fuse_Image\<close>.
  \<^item> \<open>Example_Programs\<close> and \<open>Example_Image\<close>: \<open>cdfs/examples\<close>.

  \<^bold>\<open>What is proved.\<close>
  \<^item> Parsers: what the standards record is read back (integers recorded twice, dates, all system use
    entries, directory records in either encoding, the primary descriptor); how many bytes are taken; which
    inputs are refused and which unwind, data that is too short among them. The encoders (\<open>enc_date\<close>,
    \<open>enc_sue\<close>, \<open>enc_dir_record\<close>, \<open>enc_primary\<close>) lay the bytes out as the standards do, not as the parsers
    take them; where the program reads something else than what is recorded, a function says what:
    \<open>read_date\<close>, \<open>read_timestamp\<close>, \<open>read_sue\<close> and \<open>read_header\<close> (an offset west of Greenwich is lost),
    \<open>read_long_date\<close> and \<open>read_table\<close> (also the year of the dates of a descriptor, and the border between
    the copyright and the abstract file identifier).
  \<^item> File reader: it refines a cursor over the bytes of the extent, whatever blocks are crossed and
    whatever the cache holds; reads in pieces concatenate; seeking, with its wrap-around.
  \<^item> Directories: over an image, reading through cache and reader equals a function of the image
    (\<open>entry_at\<close>); the walk over the records (\<open>dir_walk\<close>) exists and is unique, \<open>find\<close> is its first
    match and \<open>find_recursive\<close> the resolution of the path (\<open>resolves\<close>); a recorded directory is listed
    as recorded: \<open>recorded\<close> is stated of the bytes (\<open>enc_rec\<close>, \<open>area_recorded\<close>, \<open>chain\<close>) and of what the
    recorded system use entries say (\<open>meta_of\<close>, \<open>link_target\<close>, \<open>stands_for\<close>), without the program. For any
    reader at all, iteration advances. The chain of continuation areas is followed to its end, and for
    ever where it has a cycle; a lookup ends where the areas have none.
  \<^item> File system: which descriptors an image is opened with, that opening ends, which root is chosen;
    a recorded file is opened and read.
  \<^item> FUSE server: an invariant of the tables along every run, fresh handles, reads of an open file
    through any run, complete listings through any sequence of partial replies, lookup and attributes,
    refused requests.
  \<^item> Examples: what they print, and that they end; and that \<open>print_tree\<close> does not end where directories
    form a cycle.
  \<^item> \<open>Divergences\<close>: where the program departs from the formats or from its documentation, beside what
    the properties already say (the cycle of continuation areas, offsets west of Greenwich, names with
    a semicolon, lost timestamps, lengths that underflow or exceed the data).

  \<^bold>\<open>Not modelled.\<close> \<open>main\<close> of \<open>cdfs_fuse\<close> and the start of the examples (arguments, logger, opening the
  image file, mounting): calls into crates without logic of their own. Log and trace output, the
  \<open>Debug\<close> texts, the texts of errors and the trace that the build with verbose errors carries in place
  of the error kind: nothing in the program reads them. The conversion of dates to \<open>SystemTime\<close> in
  \<open>get_fileattr\<close>, which the model replaces by the dates. Errors of the standard output. The tests and
  the sample images.
\<close>

end
